theory Spec2Isabelle
  imports Complex_Main "HOL-Library.Word"
begin

unbundle bit_operations_syntax

section \<open>Machine types and memory\<close>

text \<open>
  The programs are built with gcc for 64-bit Linux: \<open>size_t\<close> is 64 bits wide (the
  serialised prefix is documented as 8 bytes), \<open>int\<close> and \<open>uint32_t\<close> are 32 bits.
  A \<open>char\<close> buffer is a list of bytes. Conversions to \<open>int\<close> keep the low 32 bits,
  read in two's complement.
\<close>

type_synonym byte = "8 word"
type_synonym size_t = "64 word"
type_synonym uint32_t = "32 word"
type_synonym c_int = "32 word"

definition NUM_FIELDS :: nat where
  "NUM_FIELDS = 8"

definition PAGE_SIZE :: size_t where
  "PAGE_SIZE = 4096"

definition sizeof_size_t :: size_t where
  "sizeof_size_t = 8"

definition size_to_int :: "size_t \<Rightarrow> int" where
  \<comment> \<open>\<open>return total_size;\<close> in a function returning \<open>int\<close>\<close>
  "size_to_int w = sint (ucast w :: c_int)"

datatype fault = OutOfBounds | BadPointer

text \<open>A pointer slot of \<open>message_t\<close>: null, dangling after \<open>free\<close>, or a live heap block.\<close>

datatype cptr = Null | Freed | Block "byte list"

record message_t =
  field :: "cptr list"
  field_size :: size_t

text \<open>\<open>memcpy\<close> of a \<open>size_t\<close> to and from memory, least significant byte first.\<close>

fun bytes_of :: "nat \<Rightarrow> size_t \<Rightarrow> byte list" where
  "bytes_of 0 w = []"
| "bytes_of (Suc n) w = ucast w # bytes_of n (drop_bit 8 w)"

fun bytes_to_size :: "byte list \<Rightarrow> size_t" where
  "bytes_to_size [] = 0"
| "bytes_to_size (b # bs) = ucast b OR push_bit 8 (bytes_to_size bs)"

definition write_at :: "byte list \<Rightarrow> nat \<Rightarrow> byte list \<Rightarrow> fault + byte list" where
  "write_at buf off src =
     (if off + length src \<le> length buf
      then Inr (take off buf @ src @ drop (off + length src) buf)
      else Inl OutOfBounds)"

definition read_at :: "byte list \<Rightarrow> nat \<Rightarrow> nat \<Rightarrow> fault + byte list" where
  "read_at buf off n =
     (if off + n \<le> length buf then Inr (take n (drop off buf)) else Inl OutOfBounds)"

section \<open>Message codec\<close>

text \<open>The loop of \<open>msg_serialize\<close> over the field pointers, left to right.\<close>

fun write_fields :: "cptr list \<Rightarrow> size_t \<Rightarrow> byte list \<Rightarrow> size_t \<Rightarrow> fault + byte list" where
  "write_fields [] fs buf off = Inr buf"
| "write_fields (p # ps) fs buf off =
     (case p of
        Block bs \<Rightarrow>
          (case read_at bs 0 (unat fs) of
             Inl e \<Rightarrow> Inl e
           | Inr d \<Rightarrow>
               (case write_at buf (unat off) d of
                  Inl e \<Rightarrow> Inl e
                | Inr buf' \<Rightarrow> write_fields ps fs buf' (off + fs)))
      | _ \<Rightarrow> Inl BadPointer)"

definition msg_serialize :: "message_t \<Rightarrow> byte list \<Rightarrow> size_t \<Rightarrow> fault + (byte list \<times> int)" where
  "msg_serialize msg buffer buffer_size =
     (let total_size = sizeof_size_t + of_nat NUM_FIELDS * field_size msg
      in if buffer_size < total_size then Inr (buffer, - 1)
         else
           (case write_at buffer 0 (bytes_of 8 (field_size msg)) of
              Inl e \<Rightarrow> Inl e
            | Inr b1 \<Rightarrow>
                (case write_fields (take NUM_FIELDS (field msg)) (field_size msg) b1 sizeof_size_t of
                   Inl e \<Rightarrow> Inl e
                 | Inr b2 \<Rightarrow> Inr (b2, size_to_int total_size))))"

text \<open>
  The heap as \<open>msg_deserialize\<close> sees it: the answer to its \<open>i\<close>-th call of \<open>malloc\<close> is
  \<open>None\<close> (a null pointer) or the initial content of the new block.
\<close>

type_synonym malloc_env = "nat \<Rightarrow> (nat \<Rightarrow> byte) option"

datatype heap_event = EvMalloc size_t bool | EvFree nat

fun read_fields ::
  "nat \<Rightarrow> nat \<Rightarrow> malloc_env \<Rightarrow> message_t \<Rightarrow> byte list \<Rightarrow> size_t \<Rightarrow> size_t \<Rightarrow> heap_event list
   \<Rightarrow> fault + (message_t \<times> bool \<times> heap_event list)" where
  "read_fields 0 i menv msg buf fs off tr = Inr (msg, True, tr)"
| "read_fields (Suc k) i menv msg buf fs off tr =
     (case menv i of
        None \<Rightarrow>
          Inr (msg\<lparr>field := (replicate i Freed @ drop i (field msg))[i := Null]\<rparr>, False,
               tr @ [EvMalloc fs False] @ map EvFree [0..<i])
      | Some g \<Rightarrow>
          (case read_at buf (unat off) (unat fs) of
             Inl e \<Rightarrow> Inl e
           | Inr d \<Rightarrow>
               read_fields k (Suc i) menv (msg\<lparr>field := (field msg)[i := Block d]\<rparr>) buf fs
                 (off + fs) (tr @ [EvMalloc fs True])))"

definition msg_deserialize ::
  "malloc_env \<Rightarrow> message_t \<Rightarrow> byte list \<Rightarrow> size_t \<Rightarrow> fault + (message_t \<times> int \<times> heap_event list)" where
  "msg_deserialize menv msg buffer buffer_size =
     (if buffer_size < sizeof_size_t then Inr (msg, - 1, [])
      else
        (case read_at buffer 0 8 of
           Inl e \<Rightarrow> Inl e
         | Inr pre \<Rightarrow>
             (let fs = bytes_to_size pre;
                  total_size = sizeof_size_t + of_nat NUM_FIELDS * fs
              in if buffer_size < total_size then Inr (msg, - 1, [])
                 else
                   (case read_fields NUM_FIELDS 0 menv (msg\<lparr>field_size := fs\<rparr>) buffer fs
                           sizeof_size_t [] of
                      Inl e \<Rightarrow> Inl e
                    | Inr (msg', ok, tr) \<Rightarrow>
                        Inr (msg', if ok then size_to_int total_size else - 1, tr)))))"

text \<open>
  A message as \<open>msg_alloc\<close> builds it: eight live blocks of \<open>field_size\<close> bytes each.
  The blocks lie side by side in one 64-bit address space, so their sizes and the prefix
  add up to less than \<open>2 ^ 64\<close>.
\<close>

fun block_bytes :: "cptr \<Rightarrow> byte list" where
  "block_bytes (Block bs) = bs"
| "block_bytes _ = []"

fun is_block_of :: "nat \<Rightarrow> cptr \<Rightarrow> bool" where
  "is_block_of n (Block bs) = (length bs = n)"
| "is_block_of n _ = False"

definition valid_message :: "message_t \<Rightarrow> bool" where
  "valid_message m \<longleftrightarrow>
     length (field m) = NUM_FIELDS \<and>
     list_all (is_block_of (unat (field_size m))) (field m) \<and>
     8 + 8 * unat (field_size m) < 2 ^ 64"

definition return_value :: "fault + (byte list \<times> int) \<Rightarrow> fault + int" where
  "return_value r = map_sum id snd r"

text \<open>Two heaps: one on which every \<open>malloc\<close> fails, one that always hands out zeroed blocks.\<close>

definition malloc_fails :: malloc_env where
  "malloc_fails i = None"

definition malloc_zeroed :: malloc_env where
  "malloc_zeroed i = Some (\<lambda>j. 0)"

definition zeroed_memalign :: "size_t \<Rightarrow> size_t \<Rightarrow> (size_t \<times> (nat \<Rightarrow> byte)) option" where
  "zeroed_memalign alignment sz = Some (0, \<lambda>j. 0)"


section \<open>Statistics\<close>

text \<open>
  \<open>stats_t\<close> without its mutex. The \<open>double\<close> fields are modelled as real numbers:
  rounding is not modelled. The clock reading of \<open>get_timestamp_sec\<close> is an argument.
\<close>

record stats_t =
  total_bytes :: size_t
  total_messages :: size_t
  total_latency_us :: real
  start_time_sec :: real
  end_time_sec :: real

definition stats_init :: "real \<Rightarrow> stats_t" where
  "stats_init now =
     \<lparr>total_bytes = 0, total_messages = 0, total_latency_us = 0,
      start_time_sec = now, end_time_sec = 0\<rparr>"

definition stats_update :: "stats_t \<Rightarrow> size_t \<Rightarrow> real \<Rightarrow> stats_t" where
  "stats_update stats bytes latency_us =
     stats\<lparr>total_bytes := total_bytes stats + bytes,
           total_messages := total_messages stats + 1,
           total_latency_us := total_latency_us stats + latency_us\<rparr>"

definition calculate_throughput_gbps :: "size_t \<Rightarrow> real \<Rightarrow> real" where
  "calculate_throughput_gbps bytes_transferred duration_sec =
     (if duration_sec \<le> 0 then 0
      else (real (unat bytes_transferred) * 8) / (duration_sec * 1000000000))"

text \<open>
  What \<open>stats_print\<close> derives and prints. The last line it prints divides by the duration
  without a guard; \<open>None\<close> stands for the non-finite value that IEEE division gives there.
\<close>

record stats_report =
  duration_sec :: real
  throughput_gbps :: real
  avg_latency_us :: real
  messages_per_sec :: "real option"

definition stats_print :: "real \<Rightarrow> stats_t \<Rightarrow> stats_t \<times> stats_report" where
  "stats_print now stats =
     (let stats' = stats\<lparr>end_time_sec := now\<rparr>;
          duration = end_time_sec stats' - start_time_sec stats'
      in (stats',
          \<lparr>duration_sec = duration,
           throughput_gbps = calculate_throughput_gbps (total_bytes stats') duration,
           avg_latency_us =
             (if 0 < total_messages stats'
              then total_latency_us stats' / real (unat (total_messages stats'))
              else 0),
           messages_per_sec =
             (if duration = 0 then None
              else Some (real (unat (total_messages stats')) / duration))\<rparr>))"

section \<open>Page-aligned buffers\<close>

text \<open>
  The size computation before \<open>posix_memalign\<close> in the workers of the vectored and the
  zero-copy variants, in \<open>size_t\<close> arithmetic.
\<close>

definition buffer_size_of :: "size_t \<Rightarrow> size_t" where
  "buffer_size_of msg_size = sizeof_size_t + msg_size"

definition aligned_size_of :: "size_t \<Rightarrow> size_t" where
  "aligned_size_of buffer_size = ((buffer_size + PAGE_SIZE - 1) div PAGE_SIZE) * PAGE_SIZE"

text \<open>
  \<open>posix_memalign\<close> belongs to the C library. Its answer to a call with an alignment and
  a size is \<open>None\<close> (a non-zero return) or the base address and the initial content of the
  new region.
\<close>

type_synonym memalign_env = "size_t \<Rightarrow> size_t \<Rightarrow> (size_t \<times> (nat \<Rightarrow> byte)) option"

record aligned_buffer =
  base :: size_t
  mem :: "byte list"

definition allocate_aligned :: "memalign_env \<Rightarrow> size_t \<Rightarrow> aligned_buffer option" where
  "allocate_aligned posix_memalign msg_size =
     (let buffer_size = buffer_size_of msg_size;
          aligned_size = aligned_size_of buffer_size
      in case posix_memalign PAGE_SIZE aligned_size of
           None \<Rightarrow> None
         | Some (addr, content) \<Rightarrow>
             Some \<lparr>base = addr, mem = map content [0..<unat aligned_size]\<rparr>)"

text \<open>What POSIX promises of \<open>posix_memalign\<close>: the address is a multiple of the alignment.\<close>

definition memalign_contract :: "memalign_env \<Rightarrow> bool" where
  "memalign_contract posix_memalign \<longleftrightarrow>
     (\<forall>alignment size addr content.
        posix_memalign alignment size = Some (addr, content) \<longrightarrow>
        unat addr mod unat alignment = 0)"


section \<open>Zero-copy completion notifications\<close>

datatype errno = EINTR | EAGAIN | ENOBUFS | ENOPROTOOPT | EOTHER nat

text \<open>
  The constants come from the Linux headers, where \<open>EWOULDBLOCK\<close> is \<open>EAGAIN\<close>. Of
  \<open>struct sock_extended_err\<close> only the members that the handler reads are kept.
\<close>

definition SOL_IP :: c_int where
  "SOL_IP = 0"

definition IP_RECVERR :: c_int where
  "IP_RECVERR = 11"

definition SO_EE_ORIGIN_ZEROCOPY :: byte where
  "SO_EE_ORIGIN_ZEROCOPY = 5"

record sock_extended_err =
  ee_origin :: byte
  ee_code :: byte
  ee_info :: uint32_t
  ee_data :: uint32_t

record cmsghdr =
  cmsg_level :: c_int
  cmsg_type :: c_int
  cmsg_data :: sock_extended_err

datatype recvmsg_result = RecvFail errno | RecvOk "cmsghdr list"

definition is_zerocopy_notification :: "cmsghdr \<Rightarrow> bool" where
  "is_zerocopy_notification cm \<longleftrightarrow>
     cmsg_level cm = SOL_IP \<and> cmsg_type cm = IP_RECVERR \<and>
     ee_origin (cmsg_data cm) = SO_EE_ORIGIN_ZEROCOPY"

text \<open>
  The loop over the control messages. \<open>*completed_count += (hi - lo + 1)\<close> adds an
  \<open>uint32_t\<close> to an \<open>int\<close>: the sum is taken modulo \<open>2 ^ 32\<close>.
\<close>

fun count_completions :: "cmsghdr list \<Rightarrow> c_int \<Rightarrow> c_int" where
  "count_completions [] completed_count = completed_count"
| "count_completions (cm # cms) completed_count =
     count_completions cms
       (if is_zerocopy_notification cm
        then (let lo = ee_info (cmsg_data cm); hi = ee_data (cmsg_data cm)
              in completed_count + (hi - lo + 1))
        else completed_count)"

text \<open>
  \<open>handle_zerocopy_completions\<close>: the return value, the new \<open>*completed_count\<close> and what
  is written to \<open>stderr\<close>. The argument is the outcome of the \<open>recvmsg\<close> on the error queue.
\<close>

definition handle_zerocopy_completions :: "recvmsg_result \<Rightarrow> c_int \<Rightarrow> int \<times> c_int \<times> string list" where
  "handle_zerocopy_completions res completed_count =
     (case res of
        RecvFail e \<Rightarrow>
          if e = EAGAIN then (0, completed_count, [])
          else (- 1, completed_count, [''recvmsg MSG_ERRQUEUE failed''])
      | RecvOk cms \<Rightarrow> (1, count_completions cms completed_count, []))"


text \<open>
  The drain loop at the end of the worker:
  \<^verbatim>\<open>while (completion_count < send_count) {
    if (handle_zerocopy_completions(fd, &completion_count) == 0) usleep(1000); }\<close>
  The answers of the error queue are a function of the number of the poll. The state is the
  number of polls made, the completion count and the number of sleeps. The loop need not
  end: not returning is \<open>None\<close>.
\<close>

partial_function (option) drain_loop ::
  "(nat \<Rightarrow> recvmsg_result) \<Rightarrow> c_int \<Rightarrow> nat \<Rightarrow> c_int \<Rightarrow> nat \<Rightarrow> (nat \<times> c_int \<times> nat) option" where
  "drain_loop errqueue send_count polls completion_count sleeps =
     (if completion_count <s send_count
      then (case handle_zerocopy_completions (errqueue polls) completion_count of
              (ret, completion_count', err) \<Rightarrow>
                drain_loop errqueue send_count (Suc polls) completion_count'
                  (if ret = 0 then Suc sleeps else sleeps))
      else Some (polls, completion_count, sleeps))"

text \<open>The completion count after \<open>n\<close> polls of the drain loop that start at poll \<open>k\<close>.\<close>

fun count_after :: "(nat \<Rightarrow> recvmsg_result) \<Rightarrow> nat \<Rightarrow> c_int \<Rightarrow> nat \<Rightarrow> c_int" where
  "count_after errqueue k c 0 = c"
| "count_after errqueue k c (Suc n) =
     count_after errqueue (Suc k) (fst (snd (handle_zerocopy_completions (errqueue k) c))) n"


text \<open>An error queue on which no notification ever arrives: every poll finds it empty.\<close>

definition never_notifies :: "nat \<Rightarrow> recvmsg_result" where
  "never_notifies k = RecvFail EAGAIN"

text \<open>An error queue that confirms one send, id by id, at every poll.\<close>

definition notifies_each :: "nat \<Rightarrow> recvmsg_result" where
  "notifies_each k =
     RecvOk [\<lparr>cmsg_level = SOL_IP, cmsg_type = IP_RECVERR,
              cmsg_data = \<lparr>ee_origin = SO_EE_ORIGIN_ZEROCOPY, ee_code = 0,
                           ee_info = of_nat k, ee_data = of_nat k\<rparr>\<rparr>]"

section \<open>Message allocation\<close>

text \<open>
  \<open>snprintf(field, field_size, "Field%d_Data_%zu", i, field_size)\<close> writes at most
  \<open>field_size - 1\<close> characters and a terminating zero, and nothing when \<open>field_size\<close> is
  zero; the rest of the block keeps what \<open>malloc\<close> left there.
\<close>

fun decimal :: "nat \<Rightarrow> string" where
  "decimal n =
     (if n < 10 then [char_of (48 + n)]
      else decimal (n div 10) @ [char_of (48 + n mod 10)])"

definition field_pattern :: "nat \<Rightarrow> size_t \<Rightarrow> byte list" where
  "field_pattern i fs =
     map of_char (''Field'' @ decimal i @ ''_Data_'' @ decimal (unat fs))"

definition snprintf :: "byte list \<Rightarrow> nat \<Rightarrow> byte list \<Rightarrow> byte list" where
  "snprintf block n text =
     (if n = 0 then block
      else (let written = take (n - 1) text @ [0]
            in written @ drop (length written) block))"

text \<open>
  \<open>msg_alloc\<close>: call \<open>0\<close> of \<open>malloc\<close> is the one for the \<open>message_t\<close> itself, call
  \<open>Suc i\<close> the one for field \<open>i\<close>. \<open>None\<close> is the null pointer it returns on failure.
\<close>

fun alloc_fields :: "malloc_env \<Rightarrow> size_t \<Rightarrow> nat \<Rightarrow> nat \<Rightarrow> cptr list option" where
  "alloc_fields menv fs i 0 = Some []"
| "alloc_fields menv fs i (Suc k) =
     (case menv (Suc i) of
        None \<Rightarrow> None
      | Some content \<Rightarrow>
          (case alloc_fields menv fs (Suc i) k of
             None \<Rightarrow> None
           | Some ps \<Rightarrow>
               Some (Block (snprintf (map content [0..<unat fs]) (unat fs) (field_pattern i fs))
                     # ps)))"

definition msg_alloc_error :: "malloc_env \<Rightarrow> string" where
  \<comment> \<open>what a failing \<open>msg_alloc\<close> passes to \<open>perror\<close>\<close>
  "msg_alloc_error menv =
     (if menv 0 = None then ''malloc message_t failed'' else ''malloc field failed'')"

definition msg_alloc :: "malloc_env \<Rightarrow> size_t \<Rightarrow> message_t option" where
  "msg_alloc menv fs =
     (case menv 0 of
        None \<Rightarrow> None
      | Some content \<Rightarrow>
          (case alloc_fields menv fs 0 NUM_FIELDS of
             None \<Rightarrow> None
           | Some ps \<Rightarrow> Some \<lparr>field = ps, field_size = fs\<rparr>))"

section \<open>The sending worker of the zero-copy variant\<close>

text \<open>
  \<open>sender_thread\<close> of the zero-copy client. The handler of the zero-copy server is the
  same from the probe for zero-copy on, without the calls that open the connection. The
  lines written to \<open>stdout\<close> and the adding of the local totals to the shared statistics
  are left out.

  Everything the worker asks of the operating system is an answer of the environment:
  whether \<open>socket\<close>, \<open>inet_pton\<close> and \<open>connect\<close> succeed, the \<open>errno\<close> of a failing
  \<open>setsockopt(SO_ZEROCOPY)\<close>, the allocators, the readings of the two clocks, the value of
  the shutdown flag at each test, and the outcome of each \<open>sendmsg\<close> and of each
  \<open>recvmsg\<close> on the error queue, numbered in the order of the calls.
\<close>

datatype send_result = SendFail errno | Sent nat

record env =
  socket_ok :: bool
  setsockopt_zerocopy :: "errno option"
  inet_pton_ok :: bool
  connect_ok :: bool
  posix_memalign :: memalign_env
  malloc :: malloc_env
  clock_sec :: "nat \<Rightarrow> real"
  clock_us :: "nat \<Rightarrow> real"
  shutdown_flag :: "nat \<Rightarrow> bool"
  sendmsg :: "nat \<Rightarrow> send_result"
  errqueue :: "nat \<Rightarrow> recvmsg_result"

datatype event =
  EvSendmsg bool size_t
| EvStderr string
| EvMsgFree
| EvFreeBuffer
| EvClose

definition check_zerocopy_support :: "errno option \<Rightarrow> int \<times> string list" where
  "check_zerocopy_support res =
     (case res of
        Some e \<Rightarrow>
          if e = ENOPROTOOPT
          then (0, [''MSG_ZEROCOPY not supported (requires Linux 4.14+)'',
                    ''Falling back to regular sendmsg()''])
          else (- 1, [''setsockopt SO_ZEROCOPY failed''])
      | None \<Rightarrow> (1, []))"

text \<open>\<open>msg_size = (size_t)parse_int_arg(...)\<close>: the option is read as an \<open>int\<close>.\<close>

definition msg_size_of_option :: "c_int \<Rightarrow> size_t" where
  "msg_size_of_option x = scast x"

record worker =
  zerocopy_enabled :: int
  message :: message_t
  frame :: "byte list"
  serialized_size :: int

datatype 'a stage = Crashed fault | Aborted "event list" | Proceed 'a "event list"

definition sender_setup :: "env \<Rightarrow> size_t \<Rightarrow> worker stage" where
  "sender_setup e msg_size =
     (if \<not> socket_ok e then Aborted [EvStderr ''socket failed'']
      else
        (case check_zerocopy_support (setsockopt_zerocopy e) of
           (zc, err) \<Rightarrow>
             if zc < 0 then Aborted (map EvStderr err @ [EvClose])
             else if \<not> inet_pton_ok e
             then Aborted (map EvStderr err @ [EvStderr ''Invalid host address'', EvClose])
             else if \<not> connect_ok e
             then Aborted (map EvStderr err @ [EvStderr ''connect failed'', EvClose])
             else
               (case allocate_aligned (posix_memalign e) msg_size of
                  None \<Rightarrow>
                    Aborted (map EvStderr err @ [EvStderr ''posix_memalign failed'', EvClose])
                | Some buf \<Rightarrow>
                    (case msg_alloc (malloc e) (msg_size div of_nat NUM_FIELDS) of
                       None \<Rightarrow>
                         Aborted (map EvStderr err @
                                  [EvStderr (msg_alloc_error (malloc e)), EvFreeBuffer, EvClose])
                     | Some msg \<Rightarrow>
                         (case msg_serialize msg (mem buf)
                                 (aligned_size_of (buffer_size_of msg_size)) of
                            Inl f \<Rightarrow> Crashed f
                          | Inr (buffer, ret) \<Rightarrow>
                              if ret < 0
                              then Aborted (map EvStderr err @
                                     (if ret = - 1
                                      then [EvStderr ''Buffer too small for serialization'']
                                      else []) @
                                     [EvMsgFree, EvFreeBuffer, EvClose])
                              else Proceed
                                     \<lparr>zerocopy_enabled = zc, message = msg, frame = buffer,
                                      serialized_size = ret\<rparr>
                                     (map EvStderr err))))))"

text \<open>
  The state of the send loop: how many answers of each kind have been consumed, the two
  counters, the local statistics, the number of sleeps and the trace of events.
\<close>

record loop_state =
  n_clock_sec :: nat
  n_clock_us :: nat
  n_flag :: nat
  n_send :: nat
  n_poll :: nat
  send_count :: c_int
  completion_count :: c_int
  local_stats :: stats_t
  sleeps :: nat
  trace :: "event list"

datatype control = Continue | Break

text \<open>A call of \<open>handle_zerocopy_completions\<close> from the worker: it consumes one answer.\<close>

definition poll_completions :: "env \<Rightarrow> loop_state \<Rightarrow> int \<times> loop_state" where
  "poll_completions e st =
     (case handle_zerocopy_completions (errqueue e (n_poll st)) (completion_count st) of
        (ret, cc, err) \<Rightarrow>
          (ret, st\<lparr>n_poll := Suc (n_poll st), completion_count := cc,
                   trace := trace st @ map EvStderr err\<rparr>))"

text \<open>One pass through the body of the send loop.\<close>

definition send_iteration :: "env \<Rightarrow> worker \<Rightarrow> loop_state \<Rightarrow> control \<times> loop_state" where
  "send_iteration e w st =
     (let send_start = clock_us e (n_clock_us st);
          flags = (zerocopy_enabled w \<noteq> 0);
          sent = sendmsg e (n_send st);
          send_end = clock_us e (Suc (n_clock_us st));
          st1 = st\<lparr>n_clock_us := Suc (Suc (n_clock_us st)), n_send := Suc (n_send st),
                   trace := trace st @ [EvSendmsg flags (of_int (serialized_size w))]\<rparr>
      in case sent of
           SendFail err \<Rightarrow>
             if err = EINTR \<or> err = EAGAIN \<or> err = ENOBUFS
             then (Continue, snd (poll_completions e st1))
             else (Break, st1\<lparr>trace := trace st1 @ [EvStderr ''sendmsg MSG_ZEROCOPY failed'']\<rparr>)
         | Sent n \<Rightarrow>
             if int n \<noteq> serialized_size w
             then (Break, st1\<lparr>trace := trace st1 @ [EvStderr ''Partial sendmsg'']\<rparr>)
             else
               (let st2 = st1\<lparr>send_count := send_count st1 + 1,
                              local_stats :=
                                stats_update (local_stats st1) (of_int (serialized_size w))
                                  (send_end - send_start)\<rparr>
                in if sint (send_count st2) mod 100 = 0
                   then (Continue, snd (poll_completions e st2))
                   else (Continue, st2)))"

text \<open>
  \<^verbatim>\<open>while (get_timestamp_sec() < end_time && !shutdown_flag) { ... }\<close>
  The loop ends only when the clock or the flag says so, or at a \<open>break\<close>.
\<close>

partial_function (option) send_loop ::
  "env \<Rightarrow> worker \<Rightarrow> real \<Rightarrow> loop_state \<Rightarrow> loop_state option" where
  "send_loop e w end_time st =
     (let now = clock_sec e (n_clock_sec st);
          st1 = st\<lparr>n_clock_sec := Suc (n_clock_sec st)\<rparr>
      in if now < end_time
         then (let flag = shutdown_flag e (n_flag st1);
                   st2 = st1\<lparr>n_flag := Suc (n_flag st1)\<rparr>
               in if \<not> flag
                  then (case send_iteration e w st2 of
                          (Continue, st3) \<Rightarrow> send_loop e w end_time st3
                        | (Break, st3) \<Rightarrow> Some st3)
                  else Some st2)
         else Some st1)"

text \<open>The draining after the send loop, entered only with zero-copy enabled.\<close>

definition drain_completions :: "env \<Rightarrow> worker \<Rightarrow> loop_state \<Rightarrow> loop_state option" where
  "drain_completions e w st =
     (if zerocopy_enabled w \<noteq> 0
      then (case drain_loop (errqueue e) (send_count st) (n_poll st) (completion_count st)
                   (sleeps st) of
              None \<Rightarrow> None
            | Some (polls, cc, sl) \<Rightarrow>
                Some (st\<lparr>n_poll := polls, completion_count := cc, sleeps := sl\<rparr>))
      else Some st)"

text \<open>The end of the worker: the report of the local statistics and the releases.\<close>

record worker_result =
  final_state :: loop_state
  report :: stats_report

definition teardown :: "env \<Rightarrow> loop_state \<Rightarrow> worker_result" where
  "teardown e st =
     (case stats_print (clock_sec e (n_clock_sec st)) (local_stats st) of
        (stats', rep) \<Rightarrow>
          \<lparr>final_state =
             st\<lparr>n_clock_sec := Suc (n_clock_sec st), local_stats := stats',
                trace := trace st @ [EvMsgFree, EvFreeBuffer, EvClose]\<rparr>,
           report = rep\<rparr>)"

definition initial_state :: "env \<Rightarrow> event list \<Rightarrow> loop_state" where
  "initial_state e evs =
     \<lparr>n_clock_sec = 2, n_clock_us = 0, n_flag = 0, n_send = 0, n_poll = 0,
      send_count = 0, completion_count = 0, local_stats = stats_init (clock_sec e 0),
      sleeps = 0, trace = evs\<rparr>"

text \<open>
  \<open>sender_thread\<close>. \<open>None\<close>: the thread never returns. Otherwise the thread crashed, or it
  returned early with the events of an aborted setup, or it ran to its end.
\<close>

definition sender_thread :: "env \<Rightarrow> size_t \<Rightarrow> int \<Rightarrow> worker_result stage option" where
  "sender_thread e msg_size duration =
     (case sender_setup e msg_size of
        Crashed f \<Rightarrow> Some (Crashed f)
      | Aborted evs \<Rightarrow> Some (Aborted evs)
      | Proceed w evs \<Rightarrow>
          (let start_time = clock_sec e 1;
               end_time = start_time + real_of_int duration
           in case send_loop e w end_time (initial_state e evs) of
                None \<Rightarrow> None
              | Some st \<Rightarrow>
                  (case drain_completions e w st of
                     None \<Rightarrow> None
                   | Some st' \<Rightarrow> Some (Proceed (teardown e st') (trace st')))))"



section \<open>Example environments\<close>

text \<open>
  A loopback run with every setup call succeeding and zeroed allocations. The first
  \<open>sendmsg\<close> meets \<open>ENOBUFS\<close> and every later one sends eight bytes; the error queue is
  empty at the first poll and confirms one send at each later poll.
\<close>

definition example_sendmsg :: "nat \<Rightarrow> send_result" where
  "example_sendmsg k = (if k = 0 then SendFail ENOBUFS else Sent 8)"

definition example_errqueue :: "nat \<Rightarrow> recvmsg_result" where
  "example_errqueue k = (if k = 0 then RecvFail EAGAIN else notifies_each (k - 1))"

definition never_shutdown :: "nat \<Rightarrow> bool" where
  "never_shutdown k = False"

definition loopback_env :: env where
  "loopback_env =
     \<lparr>socket_ok = True, setsockopt_zerocopy = None, inet_pton_ok = True, connect_ok = True,
      posix_memalign = zeroed_memalign, malloc = malloc_zeroed,
      clock_sec = real, clock_us = real, shutdown_flag = never_shutdown,
      sendmsg = example_sendmsg, errqueue = example_errqueue\<rparr>"

text \<open>The same run on a kernel without zero-copy, and on one that refuses the option.\<close>

definition fallback_env :: env where
  "fallback_env = loopback_env\<lparr>setsockopt_zerocopy := Some ENOPROTOOPT\<rparr>"

definition refusing_env :: env where
  "refusing_env = loopback_env\<lparr>setsockopt_zerocopy := Some (EOTHER 1)\<rparr>"

text \<open>The worker that the setup builds for the option \<open>--msgsize=5\<close>.\<close>

definition small_worker :: "int \<Rightarrow> worker" where
  "small_worker zc =
     \<lparr>zerocopy_enabled = zc,
      message = \<lparr>field = replicate 8 (Block []), field_size = 0\<rparr>,
      frame = replicate 4096 0, serialized_size = 8\<rparr>"

text \<open>
  The state of the example run at its first pass through the send loop, after the tests of
  the clock and of the flag, and the state after that pass, in which \<open>sendmsg\<close> failed.
\<close>

definition first_pass :: loop_state where
  "first_pass = (initial_state loopback_env [])\<lparr>n_clock_sec := 3, n_flag := 1\<rparr>"

definition after_retry :: loop_state where
  "after_retry = first_pass\<lparr>n_clock_us := 2, n_send := 1, n_poll := 1, trace := [EvSendmsg True 8]\<rparr>"

text \<open>
  The second pass of the example run, in which \<open>sendmsg\<close> sends the frame, and the state
  after the draining that follows the loop.
\<close>

definition second_pass :: loop_state where
  "second_pass = after_retry\<lparr>n_clock_sec := 4, n_flag := 2\<rparr>"

definition after_send :: loop_state where
  "after_send = second_pass
     \<lparr>n_clock_us := 4, n_send := 2, send_count := 1,
      local_stats := stats_update (stats_init 0) 8 1,
      trace := [EvSendmsg True 8, EvSendmsg True 8]\<rparr>"

definition drained :: loop_state where
  "drained = after_send\<lparr>n_clock_sec := 5, n_poll := 2, completion_count := 1\<rparr>"


section \<open>Properties of the codec\<close>

lemma length_bytes_of: "length (bytes_of n w) = n"
  by (induction n arbitrary: w) auto

lemma bytes_to_size_bytes_of: "bytes_to_size (bytes_of n w) = take_bit (8 * n) w"
proof (induction n arbitrary: w)
  case 0
  show ?case by simp
next
  case (Suc n)
  have "bytes_to_size (bytes_of (Suc n) w) =
        ucast (ucast w :: byte) OR push_bit 8 (take_bit (8 * n) (drop_bit 8 w))"
    by (simp add: Suc)
  also have "\<dots> = take_bit (8 * Suc n) w"
    by (rule bit_word_eqI) (auto simp add: bit_simps)
  finally show ?case .
qed

lemma prefix_roundtrip: "bytes_to_size (bytes_of 8 w) = w"
  by (simp add: bytes_to_size_bytes_of take_bit_word_eq_self)

lemma unat_add_small: "unat (a::size_t) + unat b < 2 ^ 64 \<Longrightarrow> unat (a + b) = unat a + unat b"
  using unat_add_lem [of a b] by simp

lemma write_fields_ok:
  assumes "list_all (is_block_of (unat fs)) ps"
    and "unat off + length ps * unat fs \<le> length buf"
    and "unat off + length ps * unat fs < 2 ^ 64"
  shows "write_fields ps fs buf off =
         Inr (take (unat off) buf @ concat (map block_bytes ps) @
              drop (unat off + length ps * unat fs) buf)"
  using assms
proof (induction ps arbitrary: buf off)
  case Nil
  then show ?case by simp
next
  case (Cons p ps)
  then obtain bs where p: "p = Block bs" and lbs: "length bs = unat fs"
    by (cases p) auto
  let ?buf' = "take (unat off) buf @ bs @ drop (unat off + unat fs) buf"
  have rd: "read_at bs 0 (unat fs) = Inr bs"
    using lbs by (simp add: read_at_def)
  have wr: "write_at buf (unat off) bs = Inr ?buf'"
    using Cons.prems lbs by (simp add: write_at_def)
  have off': "unat (off + fs) = unat off + unat fs"
    using Cons.prems by (intro unat_add_small) simp
  have len': "length ?buf' = length buf"
    using Cons.prems lbs by simp
  have ih: "write_fields ps fs ?buf' (off + fs) =
        Inr (take (unat (off + fs)) ?buf' @ concat (map block_bytes ps) @
             drop (unat (off + fs) + length ps * unat fs) ?buf')"
    using Cons.prems by (intro Cons.IH) (simp_all add: off' len' del: length_append)
  have t: "take (unat off + unat fs) ?buf' = take (unat off) buf @ bs"
    using Cons.prems lbs by simp
  have d: "drop (unat off + unat fs + length ps * unat fs) ?buf' =
           drop (unat off + unat fs + length ps * unat fs) buf"
    using Cons.prems lbs by (simp add: ac_simps)
  show ?case
    using p rd wr ih t d by (simp add: off' add.assoc)
qed


lemma unat_total_size:
  assumes "8 + 8 * unat (fs::size_t) < 2 ^ 64"
  shows "unat (sizeof_size_t + of_nat NUM_FIELDS * fs) = 8 + 8 * unat fs"
proof -
  have m: "unat (8 * fs) = 8 * unat fs"
    using assms by (simp add: unat_word_ariths)
  have "unat (8 + 8 * fs) = unat (8 :: size_t) + unat (8 * fs)"
    using assms m by (intro unat_add_small) simp
  then show ?thesis
    using m by (simp add: sizeof_size_t_def NUM_FIELDS_def)
qed

lemma msg_serialize_too_small:
  assumes "8 + 8 * unat (field_size m) < 2 ^ 64"
    and "unat buffer_size < 8 + 8 * unat (field_size m)"
  shows "msg_serialize m buffer buffer_size = Inr (buffer, - 1)"
proof -
  have "buffer_size < sizeof_size_t + of_nat NUM_FIELDS * field_size m"
    using assms by (simp add: word_less_nat_alt unat_total_size)
  then show ?thesis
    by (simp add: msg_serialize_def)
qed

lemma msg_serialize_writes:
  assumes v: "valid_message m"
    and cap: "unat buffer_size \<le> length buffer"
    and fits: "8 + 8 * unat (field_size m) \<le> unat buffer_size"
  shows "msg_serialize m buffer buffer_size =
         Inr (bytes_of 8 (field_size m) @ concat (map block_bytes (field m)) @
              drop (8 + 8 * unat (field_size m)) buffer,
              size_to_int (sizeof_size_t + of_nat NUM_FIELDS * field_size m))"
proof -
  let ?fs = "field_size m"
  let ?pre = "bytes_of 8 ?fs"
  let ?b1 = "?pre @ drop 8 buffer"
  have nov: "8 + 8 * unat ?fs < 2 ^ 64"
    using v by (simp add: valid_message_def)
  have len: "length (field m) = 8"
    using v by (simp add: valid_message_def NUM_FIELDS_def)
  have blocks: "list_all (is_block_of (unat ?fs)) (field m)"
    using v by (simp add: valid_message_def)
  have ge: "\<not> buffer_size < sizeof_size_t + of_nat NUM_FIELDS * ?fs"
    using fits nov by (simp add: word_less_nat_alt unat_total_size)
  have w1: "write_at buffer 0 ?pre = Inr ?b1"
    using cap fits by (simp add: write_at_def length_bytes_of)
  have l1: "length ?b1 = length buffer"
    using cap fits by (simp add: length_bytes_of)
  have w2: "write_fields (field m) ?fs ?b1 sizeof_size_t =
        Inr (take (unat sizeof_size_t) ?b1 @ concat (map block_bytes (field m)) @
             drop (unat sizeof_size_t + length (field m) * unat ?fs) ?b1)"
    using blocks cap fits nov len
    by (intro write_fields_ok) (simp_all add: sizeof_size_t_def l1 del: length_append)
  have t: "take 8 ?b1 = ?pre"
    by (simp add: length_bytes_of)
  have d: "drop (8 + 8 * unat ?fs) ?b1 = drop (8 + 8 * unat ?fs) buffer"
    by (simp add: length_bytes_of ac_simps)
  show ?thesis
    using ge w1 w2 t d len
    by (simp add: msg_serialize_def NUM_FIELDS_def sizeof_size_t_def)
qed


lemma read_fields_ok:
  assumes "\<forall>j. i \<le> j \<and> j < i + length cs \<longrightarrow> menv j \<noteq> None"
    and "list_all (\<lambda>c. length c = unat fs) cs"
    and "buf = pre @ concat cs @ rest"
    and "unat off = length pre"
    and "length pre + length cs * unat fs < 2 ^ 64"
    and "i + length cs \<le> length (field msg)"
  shows "read_fields (length cs) i menv msg buf fs off tr =
         Inr (msg\<lparr>field := take i (field msg) @ map Block cs @ drop (i + length cs) (field msg)\<rparr>,
              True, tr @ replicate (length cs) (EvMalloc fs True))"
  using assms
proof (induction cs arbitrary: i msg pre off tr)
  case Nil
  then show ?case by simp
next
  case (Cons c cs)
  obtain g where g: "menv i = Some g"
    using Cons.prems(1) by (cases "menv i") auto
  have lc: "length c = unat fs"
    using Cons.prems(2) by simp
  have rd: "read_at buf (unat off) (unat fs) = Inr c"
    using Cons.prems(3,4) lc by (simp add: read_at_def)
  let ?msg1 = "msg\<lparr>field := (field msg)[i := Block c]\<rparr>"
  have off': "unat (off + fs) = length (pre @ c)"
    using Cons.prems(4,5) lc unat_add_small [of off fs] by simp
  have ih: "read_fields (length cs) (Suc i) menv ?msg1 buf fs (off + fs) (tr @ [EvMalloc fs True]) =
        Inr (?msg1\<lparr>field := take (Suc i) (field ?msg1) @ map Block cs @
                              drop (Suc i + length cs) (field ?msg1)\<rparr>,
             True, (tr @ [EvMalloc fs True]) @ replicate (length cs) (EvMalloc fs True))"
  proof (rule Cons.IH [where pre = "pre @ c"])
    show "\<forall>j. Suc i \<le> j \<and> j < Suc i + length cs \<longrightarrow> menv j \<noteq> None"
      using Cons.prems(1) by simp
    show "list_all (\<lambda>c. length c = unat fs) cs"
      using Cons.prems(2) by simp
    show "buf = (pre @ c) @ concat cs @ rest"
      using Cons.prems(3) by simp
    show "unat (off + fs) = length (pre @ c)"
      by (rule off')
    show "length (pre @ c) + length cs * unat fs < 2 ^ 64"
      using Cons.prems(5) lc by simp
    show "Suc i + length cs \<le> length (field ?msg1)"
      using Cons.prems(6) by simp
  qed
  have il: "i < length (field msg)"
    using Cons.prems(6) by simp
  have t: "take (Suc i) ((field msg)[i := Block c]) = take i (field msg) @ [Block c]"
    using il by (simp add: take_Suc_conv_app_nth)
  have d: "drop (Suc i + length cs) ((field msg)[i := Block c]) = drop (Suc i + length cs) (field msg)"
    by simp
  show ?case
    using g rd ih t d by (simp add: replicate_app_Cons_same)
qed


lemma msg_deserialize_frame:
  assumes menv: "\<forall>j<NUM_FIELDS. menv j \<noteq> None"
    and cs: "length cs = NUM_FIELDS" "list_all (\<lambda>c. length c = unat fs) cs"
    and buf: "buffer = bytes_of 8 fs @ concat cs @ rest"
    and nov: "8 + 8 * unat fs < 2 ^ 64"
    and fits: "8 + 8 * unat fs \<le> unat recv_size"
    and out: "length (field m0) = NUM_FIELDS"
  shows "msg_deserialize menv m0 buffer recv_size =
         Inr (m0\<lparr>field := map Block cs, field_size := fs\<rparr>,
              size_to_int (sizeof_size_t + of_nat NUM_FIELDS * fs),
              replicate NUM_FIELDS (EvMalloc fs True))"
proof -
  have ge8: "\<not> recv_size < sizeof_size_t"
    using fits by (simp add: word_less_nat_alt sizeof_size_t_def)
  have pre: "read_at buffer 0 8 = Inr (bytes_of 8 fs)"
    using buf by (simp add: read_at_def length_bytes_of)
  have ge: "\<not> recv_size < sizeof_size_t + of_nat NUM_FIELDS * fs"
    using fits nov by (simp add: word_less_nat_alt unat_total_size)
  let ?m1 = "m0\<lparr>field_size := fs\<rparr>"
  have "read_fields (length cs) 0 menv ?m1 buffer fs sizeof_size_t [] =
        Inr (?m1\<lparr>field := take 0 (field ?m1) @ map Block cs @ drop (0 + length cs) (field ?m1)\<rparr>,
             True, [] @ replicate (length cs) (EvMalloc fs True))"
  proof (rule read_fields_ok [where pre = "bytes_of 8 fs" and rest = rest])
    show "\<forall>j. 0 \<le> j \<and> j < 0 + length cs \<longrightarrow> menv j \<noteq> None"
      using menv cs(1) by simp
    show "list_all (\<lambda>c. length c = unat fs) cs"
      by (rule cs(2))
    show "buffer = bytes_of 8 fs @ concat cs @ rest"
      by (rule buf)
    show "unat sizeof_size_t = length (bytes_of 8 fs)"
      by (simp add: sizeof_size_t_def length_bytes_of)
    show "length (bytes_of 8 fs) + length cs * unat fs < 2 ^ 64"
      using nov cs(1) by (simp add: length_bytes_of NUM_FIELDS_def)
    show "0 + length cs \<le> length (field ?m1)"
      using cs(1) out by simp
  qed
  then have rf: "read_fields NUM_FIELDS 0 menv ?m1 buffer fs sizeof_size_t [] =
        Inr (m0\<lparr>field := map Block cs, field_size := fs\<rparr>, True,
             replicate NUM_FIELDS (EvMalloc fs True))"
    using cs(1) out by simp
  show ?thesis
    using ge8 pre ge rf by (simp add: msg_deserialize_def prefix_roundtrip)
qed

lemma map_Block_block_bytes:
  "list_all (is_block_of n) ps \<Longrightarrow> map Block (map block_bytes ps) = ps"
proof (induction ps)
  case Nil
  show ?case by simp
next
  case (Cons p ps)
  then show ?case by (cases p) auto
qed

lemma block_bytes_lengths:
  "list_all (is_block_of n) ps \<Longrightarrow> list_all (\<lambda>c. length c = n) (map block_bytes ps)"
proof (induction ps)
  case Nil
  show ?case by simp
next
  case (Cons p ps)
  then show ?case by (cases p) auto
qed

lemma size_to_int_total_not_error:
  "size_to_int (sizeof_size_t + of_nat NUM_FIELDS * fs) \<noteq> - 1"
proof
  let ?t = "sizeof_size_t + of_nat NUM_FIELDS * fs"
  assume "size_to_int ?t = - 1"
  then have "sint (ucast ?t :: c_int) = sint (- 1 :: c_int)"
    by (simp add: size_to_int_def)
  then have "(ucast ?t :: c_int) = - 1"
    by (rule signed_word_eqI)
  then have one: "bit (ucast ?t :: c_int) 0"
    by simp
  have "even ?t"
    by (simp add: sizeof_size_t_def NUM_FIELDS_def)
  then have "\<not> bit ?t 0"
    by (simp only: bit_0 not_not)
  moreover have "bit (ucast ?t :: c_int) 0 \<longleftrightarrow> bit ?t 0"
    by (simp only: bit_ucast_iff) simp
  ultimately show False
    using one by simp
qed

lemma msg_deserialize_short_prefix:
  "unat buffer_size < 8 \<Longrightarrow> msg_deserialize menv msg buffer buffer_size = Inr (msg, - 1, [])"
  by (simp add: msg_deserialize_def sizeof_size_t_def word_less_nat_alt)

lemma msg_deserialize_truncated:
  assumes "read_at buffer 0 8 = Inr pre"
    and "8 + 8 * unat (bytes_to_size pre) < 2 ^ 64"
    and "unat buffer_size < 8 + 8 * unat (bytes_to_size pre)"
  shows "msg_deserialize menv msg buffer buffer_size = Inr (msg, - 1, [])"
proof -
  have "buffer_size < sizeof_size_t + of_nat NUM_FIELDS * bytes_to_size pre"
    using assms(2,3) by (simp add: word_less_nat_alt unat_total_size)
  then show ?thesis
    using assms(1) by (simp add: msg_deserialize_def)
qed

lemma size_to_int_small:
  assumes "unat w < 2 ^ 31"
  shows "size_to_int w = int (unat w)"
proof -
  have "int (unat w) < int (2 ^ 31)"
    using assms by (simp only: of_nat_less_iff)
  then have lt: "uint w < 2 ^ 31"
    by (simp only: uint_nat of_nat_power of_nat_numeral)
  have "- (2 ^ 31) \<le> (0::int)"
    by simp
  then have ge: "- (2 ^ 31) \<le> uint w"
    using uint_ge_0 [of w] by (rule order_trans)
  have "sint (ucast w :: c_int) = signed_take_bit 31 (uint w)"
    by (simp add: signed_ucast_eq)
  also have "\<dots> = uint w"
    using ge lt by (rule signed_take_bit_int_eq_self)
  finally show ?thesis
    by (simp only: size_to_int_def uint_nat)
qed

lemma msg_serialize_returns_frame_size:
  assumes "valid_message m"
    and "unat buffer_size \<le> length buffer"
    and "8 + 8 * unat (field_size m) \<le> unat buffer_size"
    and "8 + 8 * unat (field_size m) < 2 ^ 31"
  shows "msg_serialize m buffer buffer_size =
           Inr (bytes_of 8 (field_size m) @ concat (map block_bytes (field m)) @
                drop (8 + 8 * unat (field_size m)) buffer,
                int (8 + 8 * unat (field_size m)))"
proof -
  let ?t = "sizeof_size_t + of_nat NUM_FIELDS * field_size m"
  have nov: "8 + 8 * unat (field_size m) < 2 ^ 64"
    using assms(1) by (simp add: valid_message_def)
  have u: "unat ?t = 8 + 8 * unat (field_size m)"
    using nov by (rule unat_total_size)
  have "unat ?t < 2 ^ 31"
    using assms(4) by (simp only: u)
  then have "size_to_int ?t = int (unat ?t)"
    by (rule size_to_int_small)
  then have "size_to_int ?t = int (8 + 8 * unat (field_size m))"
    by (simp only: u)
  then show ?thesis
    using msg_serialize_writes [OF assms(1,2,3)] by (simp only:)
qed


section \<open>Properties of the completion handler and the drain loop\<close>


lemma drain_loop_returns_if_reached:
  "\<not> count_after q k c n <s sc \<Longrightarrow>
   drain_loop q sc k c s \<noteq> None"
proof (induction n arbitrary: k c s)
  case 0
  then show ?case
    by (subst drain_loop.simps) simp
next
  case (Suc n)
  show ?case
  proof (cases "c <s sc")
    case False
    then show ?thesis
      by (subst drain_loop.simps) simp
  next
    case True
    obtain ret c' err where h: "handle_zerocopy_completions (q k) c = (ret, c', err)"
      by (cases "handle_zerocopy_completions (q k) c") auto
    have "\<not> count_after q (Suc k) c' n <s sc"
      using Suc.prems h by simp
    then have "drain_loop q sc (Suc k) c' (if ret = 0 then Suc s else s) \<noteq> None"
      by (rule Suc.IH)
    then show ?thesis
      using True h by (subst drain_loop.simps) simp
  qed
qed

lemma drain_loop_reached_if_returns:
  assumes r: "drain_loop q sc k c s = Some y"
  shows "\<exists>n. \<not> count_after q k c n <s sc"
proof (rule drain_loop.raw_induct
    [where P = "\<lambda>e sc k c s y. \<exists>n. \<not> count_after e k c n <s sc", OF _ r])
  fix f e sc k c s y
  assume IH: "\<And>e sc k c s y. f e sc k c s = Some y \<Longrightarrow> \<exists>n. \<not> count_after e k c n <s sc"
    and body: "(if c <s sc
      then case handle_zerocopy_completions (e k) c of
           (ret, c', err) \<Rightarrow> f e sc (Suc k) c' (if ret = 0 then Suc s else s)
      else Some (k, c, s)) = Some y"
  show "\<exists>n. \<not> count_after e k c n <s sc"
  proof (cases "c <s sc")
    case False
    then have "\<not> count_after e k c 0 <s sc"
      by simp
    then show ?thesis by (rule exI)
  next
    case True
    obtain ret c' err where h: "handle_zerocopy_completions (e k) c = (ret, c', err)"
      by (cases "handle_zerocopy_completions (e k) c") auto
    have "f e sc (Suc k) c' (if ret = 0 then Suc s else s) = Some y"
      using body True h by simp
    then obtain n where "\<not> count_after e (Suc k) c' n <s sc"
      using IH by blast
    then have "\<not> count_after e k c (Suc n) <s sc"
      using h by simp
    then show ?thesis by (rule exI)
  qed
qed

lemma drain_loop_result:
  assumes r: "drain_loop q sc k c s = Some y"
  shows "\<not> fst (snd y) <s sc"
proof (rule drain_loop.raw_induct
    [where P = "\<lambda>e sc k c s y. \<not> fst (snd y) <s sc", OF _ r])
  fix f e sc k c s y
  assume IH: "\<And>e sc k c s y. f e sc k c s = Some y \<Longrightarrow> \<not> fst (snd y) <s sc"
    and body: "(if c <s sc
      then case handle_zerocopy_completions (e k) c of
           (ret, c', err) \<Rightarrow> f e sc (Suc k) c' (if ret = 0 then Suc s else s)
      else Some (k, c, s)) = Some y"
  show "\<not> fst (snd y) <s sc"
  proof (cases "c <s sc")
    case False
    then have "y = (k, c, s)"
      using body by simp
    then show ?thesis
      using False by simp
  next
    case True
    obtain ret c' err where h: "handle_zerocopy_completions (e k) c = (ret, c', err)"
      by (cases "handle_zerocopy_completions (e k) c") auto
    have "f e sc (Suc k) c' (if ret = 0 then Suc s else s) = Some y"
      using body True h by simp
    then show ?thesis
      by (rule IH)
  qed
qed

lemma count_after_never_notifies: "count_after never_notifies k c n = c"
  by (induction n arbitrary: k) (simp_all add: handle_zerocopy_completions_def never_notifies_def)


section \<open>Properties of the size computations\<close>

lemma unat_aligned_size_of:
  assumes "unat b + 4095 < 2 ^ 64"
  shows "unat (aligned_size_of b) = ((unat b + 4095) div 4096) * 4096"
proof -
  have e: "b + PAGE_SIZE - 1 = b + 4095"
    by (simp add: PAGE_SIZE_def)
  have u1: "unat (b + 4095) = unat b + 4095"
    using assms unat_add_small [of b 4095] by simp
  have u2: "unat ((b + 4095) div 4096) = (unat b + 4095) div 4096"
    by (simp add: unat_div u1)
  have le: "(unat b + 4095) div 4096 * 4096 \<le> unat b + 4095"
    by simp
  have "unat ((b + 4095) div 4096 * 4096) = (unat b + 4095) div 4096 * 4096"
    using le assms by (simp add: unat_word_ariths u2)
  then show ?thesis
    unfolding aligned_size_of_def e unfolding PAGE_SIZE_def .
qed

lemma round_up_ge:
  fixes b p :: nat
  assumes "0 < p"
  shows "b \<le> ((b + (p - 1)) div p) * p"
proof -
  have "(b + (p - 1)) mod p \<le> p - 1"
    using assms mod_less_divisor [of p "b + (p - 1)"] by linarith
  moreover have "((b + (p - 1)) div p) * p + (b + (p - 1)) mod p = b + (p - 1)"
    by (rule div_mult_mod_eq)
  ultimately show ?thesis
    by linarith
qed

lemma round_up_least:
  fixes b p n :: nat
  assumes "0 < p" and "n mod p = 0" and "b \<le> n"
  shows "((b + (p - 1)) div p) * p \<le> n"
proof -
  have "\<exists>k. n = k * p"
    using assms(2) div_mult_mod_eq [of n p] by (intro exI [of _ "n div p"]) simp
  then obtain k where n: "n = k * p" ..
  have "(b + (p - 1)) div p \<le> (k * p + (p - 1)) div p"
    using assms(3) n by (intro div_le_mono) simp
  also have "\<dots> = k"
  proof (rule div_nat_eqI)
    show "p * k \<le> k * p + (p - 1)"
      by simp
    show "k * p + (p - 1) < p * Suc k"
      using assms(1) by (cases p) simp_all
  qed
  finally have "(b + (p - 1)) div p \<le> k" .
  then have "(b + (p - 1)) div p * p \<le> k * p"
    by (rule mult_le_mono1)
  then show ?thesis
    by (simp only: n)
qed

lemma round_up_page:
  fixes b :: nat
  shows "((b + 4095) div 4096) * 4096 mod 4096 = 0"
    and "b \<le> ((b + 4095) div 4096) * 4096"
    and "n mod 4096 = 0 \<Longrightarrow> b \<le> n \<Longrightarrow> ((b + 4095) div 4096) * 4096 \<le> n"
  using round_up_ge [of 4096 b] round_up_least [of 4096 n b] by simp_all

lemma read_fields_first_malloc_fails:
  "menv 0 = None \<Longrightarrow>
   read_fields NUM_FIELDS 0 menv msg buf fs off [] =
     Inr (msg\<lparr>field := (field msg)[0 := Null]\<rparr>, False, [EvMalloc fs False])"
  by (simp add: NUM_FIELDS_def eval_nat_numeral)

lemma read_fields_first_read_fails:
  "menv 0 = Some g \<Longrightarrow> length buf < unat off + unat fs \<Longrightarrow>
   read_fields NUM_FIELDS 0 menv msg buf fs off [] = Inl OutOfBounds"
  by (simp add: NUM_FIELDS_def eval_nat_numeral read_at_def)



section \<open>Properties of the conversions to \<open>int\<close>\<close>

lemma mod_shift: "(k - m * c) mod c = k mod (c::int)"
proof -
  have "(k + (- m) * c) mod c = k mod c"
    by (rule mod_mult_self1)
  then show ?thesis by simp
qed

lemma signed_take_bit_31_shift:
  fixes k m :: int
  assumes "- (2 ^ 31) \<le> k - m * 2 ^ 32" and "k - m * 2 ^ 32 < 2 ^ 31"
  shows "signed_take_bit 31 k = k - m * 2 ^ 32"
proof -
  have "k mod 2 ^ Suc 31 = (k - m * 2 ^ Suc 31) mod 2 ^ Suc 31"
    by (rule mod_shift [symmetric])
  then have "take_bit (Suc 31) k = take_bit (Suc 31) (k - m * 2 ^ 32)"
    by (simp only: take_bit_eq_mod) simp
  then have "signed_take_bit 31 k = signed_take_bit 31 (k - m * 2 ^ 32)"
    by (simp only: signed_take_bit_eq_iff_take_bit_eq)
  also have "\<dots> = k - m * 2 ^ 32"
    using assms by (rule signed_take_bit_int_eq_self)
  finally show ?thesis .
qed

lemma size_to_int_signed: "size_to_int t = signed_take_bit 31 (uint t)"
  by (simp add: size_to_int_def signed_ucast_eq)

lemma size_to_int_negative:
  assumes "(2 ^ 31 \<le> uint t \<and> uint t < 2 ^ 32) \<or> 2 ^ 64 - 2 ^ 31 \<le> uint t"
  shows "size_to_int t < 0"
proof -
  have lt: "uint t < 2 ^ 64"
    using uint_lt2p [of t] by simp
  from assms show ?thesis
  proof
    assume a: "2 ^ 31 \<le> uint t \<and> uint t < 2 ^ 32"
    have "signed_take_bit 31 (uint t) = uint t - 1 * 2 ^ 32"
      using a by (intro signed_take_bit_31_shift) simp_all
    then show ?thesis
      using a by (simp add: size_to_int_signed)
  next
    assume a: "2 ^ 64 - 2 ^ 31 \<le> uint t"
    have "signed_take_bit 31 (uint t) = uint t - 2 ^ 32 * 2 ^ 32"
      using a lt by (intro signed_take_bit_31_shift) simp_all
    then show ?thesis
      using lt by (simp add: size_to_int_signed)
  qed
qed

lemma mod_negative:
  fixes a c :: int
  assumes "- c \<le> a" and "a < 0"
  shows "a mod c = a + c"
proof -
  have "(a + c) mod c = a + c"
    using assms by (intro mod_pos_pos_trivial) simp_all
  then show ?thesis
    by simp
qed

lemma uint_scast_cases:
  fixes x :: c_int
  shows "(0 \<le> sint x \<and> uint (scast x :: size_t) = sint x \<and> sint x < 2 ^ 31) \<or>
         (sint x < 0 \<and> 2 ^ 64 - 2 ^ 31 \<le> uint (scast x :: size_t))"
proof -
  have u: "uint (scast x :: size_t) = sint x mod 2 ^ 64"
    by (simp only: scast_eq uint_word_of_int) simp
  have ge: "- (2 ^ 31) \<le> sint x" and lt: "sint x < 2 ^ 31"
    using sint_ge [of x] sint_lt [of x] by simp_all
  show ?thesis
  proof (cases "0 \<le> sint x")
    case True
    have "sint x < 2 ^ 64"
      using lt by simp
    with True have "sint x mod 2 ^ 64 = sint x"
      by (rule mod_pos_pos_trivial)
    then show ?thesis
      using lt True by (simp only: u) simp
  next
    case False
    then have neg: "sint x < 0"
      by simp
    have "- (2 ^ 64) \<le> sint x"
      using ge by simp
    then have "sint x mod 2 ^ 64 = sint x + 2 ^ 64"
      using neg by (rule mod_negative)
    then show ?thesis
      using ge neg by (simp only: u) simp
  qed
qed

lemma unat_less_numeral_iff: "unat w < n \<longleftrightarrow> uint w < int n"
  by (metis uint_nat of_nat_less_iff)

lemma unat_ge_numeral_iff: "n \<le> unat w \<longleftrightarrow> int n \<le> uint w"
  by (metis uint_nat of_nat_le_iff)

lemma size_to_int_negative_nat:
  assumes "(2 ^ 31 \<le> unat t \<and> unat t < 2 ^ 32) \<or> 2 ^ 64 - 2 ^ 31 \<le> unat t"
  shows "size_to_int t < 0"
proof (rule size_to_int_negative)
  have a: "int (2 ^ 31) = 2 ^ 31" "int (2 ^ 32) = 2 ^ 32" "int (2 ^ 64 - 2 ^ 31) = 2 ^ 64 - 2 ^ 31"
    by simp_all
  show "(2 ^ 31 \<le> uint t \<and> uint t < 2 ^ 32) \<or> 2 ^ 64 - 2 ^ 31 \<le> uint t"
    using assms unfolding unat_less_numeral_iff unat_ge_numeral_iff a .
qed

lemma unat_scast_cases:
  fixes x :: c_int
  shows "unat (scast x :: size_t) < 2 ^ 31 \<or> 2 ^ 64 - 2 ^ 31 \<le> unat (scast x :: size_t)"
proof -
  have a: "int (2 ^ 31) = 2 ^ 31" "int (2 ^ 64 - 2 ^ 31) = 2 ^ 64 - 2 ^ 31"
    by simp_all
  have "uint (scast x :: size_t) < 2 ^ 31 \<or> 2 ^ 64 - 2 ^ 31 \<le> uint (scast x :: size_t)"
    using uint_scast_cases [of x] by auto
  then show ?thesis
    unfolding unat_less_numeral_iff unat_ge_numeral_iff a .
qed

section \<open>Properties of the worker\<close>

lemma length_snprintf: "n \<le> length block \<Longrightarrow> length (snprintf block n text) = length block"
  by (auto simp add: snprintf_def Let_def min_def)

lemma alloc_fields_shape:
  "alloc_fields menv fs i k = Some ps \<Longrightarrow>
   length ps = k \<and> list_all (is_block_of (unat fs)) ps"
proof (induction k arbitrary: i ps)
  case 0
  then show ?case by simp
next
  case (Suc k)
  then show ?case
    by (auto simp add: length_snprintf split: option.splits)
qed

lemma msg_alloc_shape:
  assumes "msg_alloc menv fs = Some m"
  shows "field_size m = fs \<and> length (field m) = NUM_FIELDS \<and>
         list_all (is_block_of (unat fs)) (field m)"
  using assms alloc_fields_shape [of menv fs 0 NUM_FIELDS]
  by (auto simp add: msg_alloc_def split: option.splits)

lemma write_fields_in_bounds:
  assumes "write_fields ps fs buf off = Inr b"
    and "list_all (is_block_of (unat fs)) ps"
    and "ps \<noteq> []"
    and "length buf < 2 ^ 64"
  shows "unat off + length ps * unat fs \<le> length buf"
  using assms
proof (induction ps arbitrary: buf off)
  case Nil
  then show ?case by simp
next
  case (Cons p ps)
  obtain bs where p: "p = Block bs" and lbs: "length bs = unat fs"
    using Cons.prems(2) by (cases p) auto
  have rd: "read_at bs 0 (unat fs) = Inr bs"
    using lbs by (simp add: read_at_def)
  have fit: "unat off + unat fs \<le> length buf"
    using Cons.prems(1) p rd lbs
    by (simp add: write_at_def split: if_splits)
  let ?buf' = "take (unat off) buf @ bs @ drop (unat off + unat fs) buf"
  have wr: "write_at buf (unat off) bs = Inr ?buf'"
    using fit lbs by (simp add: write_at_def)
  have rec: "write_fields ps fs ?buf' (off + fs) = Inr b"
    using Cons.prems(1) p rd wr by simp
  have len': "length ?buf' = length buf"
    using fit lbs by simp
  show ?case
  proof (cases "ps = []")
    case True
    then show ?thesis
      using fit by simp
  next
    case False
    have off': "unat (off + fs) = unat off + unat fs"
      using fit Cons.prems(4) by (intro unat_add_small) simp
    have "unat (off + fs) + length ps * unat fs \<le> length ?buf'"
      using rec Cons.prems(2,4) False len'
      by (intro Cons.IH) (simp_all del: length_append)
    then show ?thesis
      using off' len' by simp
  qed
qed

lemma msg_serialize_success:
  assumes s: "msg_serialize m buf bs = Inr (b, r)" and r: "r \<noteq> - 1"
    and len: "length (field m) = NUM_FIELDS"
    and blocks: "list_all (is_block_of (unat (field_size m))) (field m)"
    and small: "length buf < 2 ^ 64"
  shows "8 + 8 * unat (field_size m) \<le> length buf \<and>
         r = size_to_int (sizeof_size_t + of_nat NUM_FIELDS * field_size m) \<and>
         \<not> bs < sizeof_size_t + of_nat NUM_FIELDS * field_size m"
proof -
  let ?t = "sizeof_size_t + of_nat NUM_FIELDS * field_size m"
  have ge: "\<not> bs < ?t"
    using s r by (auto simp add: msg_serialize_def Let_def split: if_splits)
  obtain b1 where w1: "write_at buf 0 (bytes_of 8 (field_size m)) = Inr b1"
    and w2: "write_fields (field m) (field_size m) b1 sizeof_size_t = Inr b"
    and rr: "r = size_to_int ?t"
    using s ge len by (auto simp add: msg_serialize_def Let_def split: sum.splits)
  have l1: "length b1 = length buf"
    using w1 by (auto simp add: write_at_def length_bytes_of split: if_splits)
  have ne: "field m \<noteq> []"
    using len by (auto simp add: NUM_FIELDS_def)
  have "unat sizeof_size_t + length (field m) * unat (field_size m) \<le> length b1"
    using w2 blocks ne small l1 by (intro write_fields_in_bounds) simp_all
  then show ?thesis
    using l1 len rr ge by (simp add: sizeof_size_t_def NUM_FIELDS_def)
qed

lemma sender_setup_Proceed:
  assumes "sender_setup e msg_size = Proceed w evs"
  shows "\<exists>buf. allocate_aligned (posix_memalign e) msg_size = Some buf \<and>
           msg_alloc (malloc e) (msg_size div of_nat NUM_FIELDS) = Some (message w) \<and>
           msg_serialize (message w) (mem buf) (aligned_size_of (buffer_size_of msg_size)) =
             Inr (frame w, serialized_size w) \<and>
           0 \<le> serialized_size w \<and>
           zerocopy_enabled w = fst (check_zerocopy_support (setsockopt_zerocopy e))"
  using assms
  by (auto simp add: sender_setup_def split: if_splits option.splits sum.splits prod.splits)

lemma length_mem_allocate_aligned:
  "allocate_aligned pm msg_size = Some buf \<Longrightarrow>
   length (mem buf) = unat (aligned_size_of (buffer_size_of msg_size))"
  by (auto simp add: allocate_aligned_def Let_def split: option.splits)

lemma blocks_empty:
  "list_all (is_block_of 0) ps \<Longrightarrow> ps = replicate (length ps) (Block [])"
proof (induction ps)
  case Nil
  show ?case by simp
next
  case (Cons p ps)
  then show ?case by (cases p) auto
qed

lemma alloc_fields_zero:
  "alloc_fields malloc_zeroed 0 0 NUM_FIELDS = Some (replicate 8 (Block []))"
  by (simp add: NUM_FIELDS_def eval_nat_numeral malloc_zeroed_def snprintf_def)

lemma msg_alloc_zero:
  "msg_alloc malloc_zeroed 0 = Some \<lparr>field = replicate 8 (Block []), field_size = 0\<rparr>"
  by (simp add: msg_alloc_def alloc_fields_zero malloc_zeroed_def)

lemma allocate_aligned_small:
  "allocate_aligned zeroed_memalign 5 = Some \<lparr>base = 0, mem = replicate 4096 0\<rparr>"
  by (simp add: allocate_aligned_def buffer_size_of_def aligned_size_of_def sizeof_size_t_def
      PAGE_SIZE_def Let_def zeroed_memalign_def map_replicate_const)

lemma msg_serialize_small:
  "msg_serialize \<lparr>field = replicate 8 (Block []), field_size = 0\<rparr> (replicate 4096 0) 4096 =
     Inr (replicate 4096 0, 8)"
proof -
  let ?m = "\<lparr>field = replicate 8 (Block []), field_size = 0 :: size_t\<rparr>"
  have v: "valid_message ?m"
    by (simp add: valid_message_def NUM_FIELDS_def list_all_length)
  have c: "unat (4096 :: size_t) \<le> length (replicate 4096 (0 :: byte))"
    by simp
  have f: "8 + 8 * unat (field_size ?m) \<le> unat (4096 :: size_t)"
    by simp
  have b: "bytes_of 8 (0 :: size_t) = replicate 8 0"
    by (simp add: eval_nat_numeral)
  have r: "replicate 8 (0 :: byte) @ replicate 4088 0 = replicate 4096 0"
    by (simp add: replicate_add [symmetric])
  have s: "size_to_int (sizeof_size_t + of_nat NUM_FIELDS * 0) = 8"
    by (simp add: size_to_int_def sizeof_size_t_def)
  show ?thesis
    using msg_serialize_writes [OF v c f] b r s by simp
qed

lemma sender_setup_small:
  "sender_setup loopback_env 5 = Proceed (small_worker 1) []"
  "sender_setup fallback_env 5 =
     Proceed (small_worker 0)
       [EvStderr ''MSG_ZEROCOPY not supported (requires Linux 4.14+)'',
        EvStderr ''Falling back to regular sendmsg()'']"
  by (simp_all add: sender_setup_def loopback_env_def fallback_env_def check_zerocopy_support_def
      allocate_aligned_small msg_alloc_zero NUM_FIELDS_def msg_serialize_small small_worker_def
      buffer_size_of_def aligned_size_of_def sizeof_size_t_def PAGE_SIZE_def)


lemma send_loop_step:
  assumes "clock_sec e (n_clock_sec st) < end_time"
    and "\<not> shutdown_flag e (n_flag st)"
    and "send_iteration e w (st\<lparr>n_clock_sec := Suc (n_clock_sec st), n_flag := Suc (n_flag st)\<rparr>)
           = (Continue, st')"
  shows "send_loop e w end_time st = send_loop e w end_time st'"
  using assms by (subst send_loop.simps) (simp add: Let_def)


lemma first_pass_facts:
  "sendmsg loopback_env (n_send first_pass) = SendFail ENOBUFS"
  "clock_sec loopback_env (n_clock_sec (initial_state loopback_env [])) < 4"
  "\<not> shutdown_flag loopback_env (n_flag (initial_state loopback_env []))"
  "first_pass = (initial_state loopback_env [])
     \<lparr>n_clock_sec := Suc (n_clock_sec (initial_state loopback_env [])),
      n_flag := Suc (n_flag (initial_state loopback_env []))\<rparr>"
  "handle_zerocopy_completions (errqueue loopback_env (n_poll first_pass))
     (completion_count first_pass) = (0, 0, [])"
  by (simp_all add: first_pass_def loopback_env_def initial_state_def example_sendmsg_def
      never_shutdown_def example_errqueue_def handle_zerocopy_completions_def)


lemma send_iteration_event:
  "\<exists>rest. trace (snd (send_iteration e w st)) =
     trace st @ EvSendmsg (zerocopy_enabled w \<noteq> 0) (of_int (serialized_size w)) # rest"
  by (auto simp add: send_iteration_def poll_completions_def Let_def
      split: send_result.splits prod.splits)


section \<open>The example run, evaluated\<close>

text \<open>
  With a duration of three seconds the example thread makes one failing and one successful
  send, drains one notification and ends with one message of eight bytes counted.
\<close>

lemma pass1: "send_iteration loopback_env (small_worker 1) first_pass = (Continue, after_retry)"
  by (simp add: send_iteration_def poll_completions_def Let_def first_pass_def after_retry_def
      loopback_env_def initial_state_def example_sendmsg_def example_errqueue_def
      handle_zerocopy_completions_def small_worker_def)

lemma pass2: "send_iteration loopback_env (small_worker 1) second_pass = (Continue, after_send)"
  by (simp add: send_iteration_def poll_completions_def Let_def first_pass_def after_retry_def
      second_pass_def after_send_def
      loopback_env_def initial_state_def example_sendmsg_def example_errqueue_def
      handle_zerocopy_completions_def small_worker_def)

lemma loop_example:
  "send_loop loopback_env (small_worker 1) 4 (initial_state loopback_env []) =
     Some (after_send\<lparr>n_clock_sec := 5\<rparr>)"
proof -
  have a: "send_loop loopback_env (small_worker 1) 4 (initial_state loopback_env []) =
           send_loop loopback_env (small_worker 1) 4 after_retry"
    using first_pass_facts(2,3) pass1 [unfolded first_pass_facts(4)] by (rule send_loop_step)
  have b: "send_loop loopback_env (small_worker 1) 4 after_retry =
           send_loop loopback_env (small_worker 1) 4 after_send"
  proof (rule send_loop_step)
    show "clock_sec loopback_env (n_clock_sec after_retry) < 4"
      by (simp add: after_retry_def first_pass_def loopback_env_def)
    show "\<not> shutdown_flag loopback_env (n_flag after_retry)"
      by (simp add: loopback_env_def never_shutdown_def)
    have "after_retry\<lparr>n_clock_sec := Suc (n_clock_sec after_retry),
            n_flag := Suc (n_flag after_retry)\<rparr> = second_pass"
      by (simp add: second_pass_def after_retry_def first_pass_def)
    then show "send_iteration loopback_env (small_worker 1)
        (after_retry\<lparr>n_clock_sec := Suc (n_clock_sec after_retry),
           n_flag := Suc (n_flag after_retry)\<rparr>) = (Continue, after_send)"
      using pass2 by simp
  qed
  have c: "send_loop loopback_env (small_worker 1) 4 after_send = Some (after_send\<lparr>n_clock_sec := 5\<rparr>)"
    by (subst send_loop.simps)
      (simp add: Let_def after_send_def second_pass_def loopback_env_def)
  show ?thesis
    using a b c by simp
qed


lemma drain_example:
  "drain_completions loopback_env (small_worker 1) (after_send\<lparr>n_clock_sec := 5\<rparr>) = Some drained"
proof -
  have "drain_loop example_errqueue 1 1 0 0 = Some (2, 1, 0)"
    by (simp add: drain_loop.simps [of example_errqueue 1] handle_zerocopy_completions_def
        example_errqueue_def notifies_each_def is_zerocopy_notification_def word_sless_alt)
  then show ?thesis
    by (simp add: drain_completions_def small_worker_def after_send_def second_pass_def
        after_retry_def first_pass_def initial_state_def loopback_env_def drained_def)
qed

lemma sender_thread_example:
  "sender_thread loopback_env 5 3 = Some (Proceed (teardown loopback_env drained) (trace drained))"
  "send_count drained = 1" "completion_count drained = 1"
  "total_messages (local_stats (final_state (teardown loopback_env drained))) = 1"
  "total_bytes (local_stats (final_state (teardown loopback_env drained))) = 8"
  "trace (final_state (teardown loopback_env drained)) =
     [EvSendmsg True 8, EvSendmsg True 8, EvMsgFree, EvFreeBuffer, EvClose]"
proof -
  have e: "clock_sec loopback_env (Suc 0) + 3 = 4"
    by (simp add: loopback_env_def)
  show "sender_thread loopback_env 5 3 = Some (Proceed (teardown loopback_env drained) (trace drained))"
    by (simp add: sender_thread_def sender_setup_small(1) Let_def e loop_example drain_example)
  show "send_count drained = 1" "completion_count drained = 1"
    by (simp_all add: drained_def after_send_def)
  show "total_messages (local_stats (final_state (teardown loopback_env drained))) = 1"
    "total_bytes (local_stats (final_state (teardown loopback_env drained))) = 8"
    "trace (final_state (teardown loopback_env drained)) =
       [EvSendmsg True 8, EvSendmsg True 8, EvMsgFree, EvFreeBuffer, EvClose]"
    by (simp_all add: teardown_def stats_print_def Let_def drained_def after_send_def
        stats_update_def stats_init_def split: prod.splits)
qed


section \<open>Claims about the message codec\<close>

text \<open>
  C5 (round trip). Let \<open>m\<close> be a message of eight fields, each a live block of
  \<open>field_size m\<close> bytes, and let the buffer have a capacity of at least
  \<open>sizeof(size_t) + 8 * field_size m\<close> bytes. Then \<open>msg_serialize\<close> takes its success
  path and writes a frame, and \<open>msg_deserialize\<close> on that frame takes its success path as
  well (every \<open>malloc\<close> answering with a block) and fills the output message with the same
  \<open>field_size\<close> and, field for field, the same bytes. Both calls return the same value,
  which is never the error code \<open>-1\<close>.
\<close>

theorem msg_roundtrip:
  assumes v: "valid_message m"
    and cap: "length buffer = unat buffer_size"
    and fits: "8 + 8 * unat (field_size m) \<le> unat buffer_size"
    and menv: "\<forall>j<NUM_FIELDS. menv j \<noteq> None"
    and out: "length (field m0) = NUM_FIELDS"
  shows "\<exists>frame r tr m'.
           msg_serialize m buffer buffer_size = Inr (frame, r) \<and> r \<noteq> - 1 \<and>
           msg_deserialize menv m0 frame buffer_size = Inr (m', r, tr) \<and>
           field_size m' = field_size m \<and> field m' = field m"
proof -
  let ?fs = "field_size m"
  let ?cs = "map block_bytes (field m)"
  let ?frame = "bytes_of 8 ?fs @ concat ?cs @ drop (8 + 8 * unat ?fs) buffer"
  let ?r = "size_to_int (sizeof_size_t + of_nat NUM_FIELDS * ?fs)"
  have blocks: "list_all (is_block_of (unat ?fs)) (field m)"
    using v by (simp add: valid_message_def)
  have ser: "msg_serialize m buffer buffer_size = Inr (?frame, ?r)"
    using v cap fits by (intro msg_serialize_writes) simp_all
  have des: "msg_deserialize menv m0 ?frame buffer_size =
        Inr (m0\<lparr>field := map Block ?cs, field_size := ?fs\<rparr>, ?r,
             replicate NUM_FIELDS (EvMalloc ?fs True))"
  proof (rule msg_deserialize_frame [OF menv _ _ refl _ fits out])
    show "length ?cs = NUM_FIELDS"
      using v by (simp add: valid_message_def)
    show "list_all (\<lambda>c. length c = unat ?fs) ?cs"
      using blocks by (rule block_bytes_lengths)
    show "8 + 8 * unat ?fs < 2 ^ 64"
      using v by (simp add: valid_message_def)
  qed
  have same: "map Block ?cs = field m"
    using blocks by (rule map_Block_block_bytes)
  show ?thesis
    using ser des same size_to_int_total_not_error [of ?fs] by simp
qed

theorem msg_roundtrip_witness:
  "valid_message \<lparr>field = map (\<lambda>b. Block [b]) [1, 2, 3, 4, 5, 6, 7, 8], field_size = 1\<rparr> \<and>
   length (replicate 16 (0::byte)) = unat (16 :: size_t) \<and>
   (\<exists>frame r tr m'.
      msg_serialize \<lparr>field = map (\<lambda>b. Block [b]) [1, 2, 3, 4, 5, 6, 7, 8], field_size = 1\<rparr>
        (replicate 16 0) 16 = Inr (frame, r) \<and> r \<noteq> - 1 \<and>
      msg_deserialize (\<lambda>i. Some (\<lambda>j. 0)) \<lparr>field = replicate 8 Null, field_size = 0\<rparr> frame 16 =
        Inr (m', r, tr) \<and>
      field_size m' = 1 \<and> field m' = map (\<lambda>b. Block [b]) [1, 2, 3, 4, 5, 6, 7, 8])"
  using msg_roundtrip [of "\<lparr>field = map (\<lambda>b. Block [b]) [1, 2, 3, 4, 5, 6, 7, 8], field_size = 1\<rparr>"
      "replicate 16 0" 16 "\<lambda>i. Some (\<lambda>j. 0)" "\<lparr>field = replicate 8 Null, field_size = 0\<rparr>"]
  by (simp add: valid_message_def NUM_FIELDS_def)


text \<open>
  C6 (truncation), evaluated where the code departs from the claim. A buffer of eight bytes
  holds only a prefix that declares fields of \<open>2 ^ 61\<close> bytes, so it is far shorter than
  the frame it declares. The product \<open>NUM_FIELDS * field_size\<close> wraps to \<open>0\<close>, the size
  check passes, \<open>field_size\<close> of the output message is overwritten and \<open>malloc\<close> is called
  for the first field. When that call fails the function returns \<open>-1\<close> through its
  allocation-failure path; when it succeeds the copy reads beyond the buffer.
\<close>

theorem msg_deserialize_prefix_overflow:
  "msg_deserialize malloc_fails \<lparr>field = replicate 8 Null, field_size = 0\<rparr>
     [0, 0, 0, 0, 0, 0, 0, 0x20] 8 =
     Inr (\<lparr>field = replicate 8 Null, field_size = 0x2000000000000000\<rparr>, - 1,
          [EvMalloc 0x2000000000000000 False]) \<and>
   msg_deserialize malloc_zeroed \<lparr>field = replicate 8 Null, field_size = 0\<rparr>
     [0, 0, 0, 0, 0, 0, 0, 0x20] 8 = Inl OutOfBounds"
proof -
  have p: "bytes_to_size [0, 0, 0, 0, 0, 0, 0, 0x20] = 0x2000000000000000"
    by simp
  have r: "read_at [0, 0, 0, 0, 0, 0, 0, 0x20 :: byte] 0 8 = Inr [0, 0, 0, 0, 0, 0, 0, 0x20]"
    by (simp add: read_at_def)
  have t: "sizeof_size_t + of_nat NUM_FIELDS * (0x2000000000000000 :: size_t) = 8"
    by (simp add: sizeof_size_t_def NUM_FIELDS_def)
  have rep: "(replicate 8 Null)[0 := Null] = replicate 8 Null"
    by (simp add: eval_nat_numeral)
  have s: "\<not> (8 :: size_t) < sizeof_size_t"
    by (simp add: sizeof_size_t_def)
  have u8: "unat sizeof_size_t = 8"
    by (simp add: sizeof_size_t_def)
  show ?thesis
    unfolding msg_deserialize_def Let_def r p t
    by (simp add: s read_fields_first_malloc_fails read_fields_first_read_fails rep u8 t
        malloc_fails_def malloc_zeroed_def)
qed

text \<open>
  C7 (serialisation), as the code has it. For a well-formed message and a buffer whose
  capacity is what the caller says, \<open>msg_serialize\<close> either finds the capacity smaller than
  the frame size and returns \<open>-1\<close> with the buffer unchanged, or writes the prefix and the
  eight fields one after the other, leaves the rest of the buffer as it was, and returns the
  frame size converted to \<open>int\<close>. That value is the frame size whenever the frame is shorter
  than \<open>2 ^ 31\<close> bytes.
\<close>

theorem msg_serialize_contract:
  assumes "valid_message m" and "unat buffer_size \<le> length buffer"
  shows "msg_serialize m buffer buffer_size =
           (if unat buffer_size < 8 + 8 * unat (field_size m) then Inr (buffer, - 1)
            else Inr (bytes_of 8 (field_size m) @ concat (map block_bytes (field m)) @
                      drop (8 + 8 * unat (field_size m)) buffer,
                      size_to_int (sizeof_size_t + of_nat NUM_FIELDS * field_size m))) \<and>
         (8 + 8 * unat (field_size m) < 2 ^ 31 \<longrightarrow>
            size_to_int (sizeof_size_t + of_nat NUM_FIELDS * field_size m) =
            int (8 + 8 * unat (field_size m)))"
proof -
  have nov: "8 + 8 * unat (field_size m) < 2 ^ 64"
    using assms(1) by (simp add: valid_message_def)
  have a: "unat buffer_size < 8 + 8 * unat (field_size m) \<Longrightarrow>
           msg_serialize m buffer buffer_size = Inr (buffer, - 1)"
    using nov by (rule msg_serialize_too_small)
  have b: "\<not> unat buffer_size < 8 + 8 * unat (field_size m) \<Longrightarrow>
           msg_serialize m buffer buffer_size =
             Inr (bytes_of 8 (field_size m) @ concat (map block_bytes (field m)) @
                  drop (8 + 8 * unat (field_size m)) buffer,
                  size_to_int (sizeof_size_t + of_nat NUM_FIELDS * field_size m))"
    using assms by (intro msg_serialize_writes) simp_all
  have c: "8 + 8 * unat (field_size m) < 2 ^ 31 \<Longrightarrow>
           size_to_int (sizeof_size_t + of_nat NUM_FIELDS * field_size m) =
           int (8 + 8 * unat (field_size m))"
  proof -
    assume lt: "8 + 8 * unat (field_size m) < 2 ^ 31"
    have u: "unat (sizeof_size_t + of_nat NUM_FIELDS * field_size m) = 8 + 8 * unat (field_size m)"
      using nov by (rule unat_total_size)
    have "unat (sizeof_size_t + of_nat NUM_FIELDS * field_size m) < 2 ^ 31"
      using lt by (simp only: u)
    then have "size_to_int (sizeof_size_t + of_nat NUM_FIELDS * field_size m) =
               int (unat (sizeof_size_t + of_nat NUM_FIELDS * field_size m))"
      by (rule size_to_int_small)
    then show ?thesis
      by (simp only: u)
  qed
  have d: "msg_serialize m buffer buffer_size =
           (if unat buffer_size < 8 + 8 * unat (field_size m) then Inr (buffer, - 1)
            else Inr (bytes_of 8 (field_size m) @ concat (map block_bytes (field m)) @
                      drop (8 + 8 * unat (field_size m)) buffer,
                      size_to_int (sizeof_size_t + of_nat NUM_FIELDS * field_size m)))"
  proof (cases "unat buffer_size < 8 + 8 * unat (field_size m)")
    case True
    then show ?thesis
      using a [OF True] by simp
  next
    case False
    then show ?thesis
      using b [OF False] by simp
  qed
  show ?thesis
    using c d by (intro conjI impI)
qed

theorem msg_serialize_contract_witness:
  "valid_message \<lparr>field = map (\<lambda>b. Block [b]) [1, 2, 3, 4, 5, 6, 7, 8], field_size = 1\<rparr> \<and>
   unat (20 :: size_t) \<le> length (replicate 20 (0 :: byte)) \<and>
   8 + 8 * unat (1 :: size_t) < 2 ^ 31 \<and>
   msg_serialize \<lparr>field = map (\<lambda>b. Block [b]) [1, 2, 3, 4, 5, 6, 7, 8], field_size = 1\<rparr>
     (replicate 20 0) 20 =
     Inr ([1, 0, 0, 0, 0, 0, 0, 0, 1, 2, 3, 4, 5, 6, 7, 8, 0, 0, 0, 0], 16)"
proof -
  let ?m = "\<lparr>field = map (\<lambda>b. Block [b]) [1, 2, 3, 4, 5, 6, 7, 8 :: byte], field_size = 1\<rparr>"
  have v: "valid_message ?m"
    by (simp add: valid_message_def NUM_FIELDS_def)
  have c: "unat (20 :: size_t) \<le> length (replicate 20 (0 :: byte))"
    by simp
  have s: "8 + 8 * unat (1 :: size_t) < 2 ^ 31"
    by simp
  have b8: "bytes_of 8 (1 :: size_t) = [1, 0, 0, 0, 0, 0, 0, 0]"
    by (simp add: eval_nat_numeral)
  have r20: "drop 16 (replicate 20 (0 :: byte)) = [0, 0, 0, 0]"
    by (simp add: eval_nat_numeral)
  show ?thesis
    using v c s msg_serialize_contract [OF v c] b8 r20 by simp
qed

text \<open>
  C7, where the claim as stated fails. A message of eight fields of 268435455 bytes has a
  frame of \<open>2 ^ 31\<close> bytes; with a buffer of that capacity \<open>msg_serialize\<close> writes the
  frame, and the \<open>int\<close> it returns is \<open>- 2 ^ 31\<close>, not the frame size.
\<close>

theorem msg_serialize_int_overflow:
  "return_value (msg_serialize
      \<lparr>field = replicate 8 (Block (replicate 268435455 0)), field_size = 268435455\<rparr>
      (replicate 2147483648 0) 2147483648) = Inr (- 2147483648)"
proof -
  define blk :: "byte list" where "blk = replicate 268435455 0"
  define buffer :: "byte list" where "buffer = replicate 2147483648 0"
  define m where "m = \<lparr>field = replicate 8 (Block blk), field_size = 268435455\<rparr>"
  have lb: "length blk = 268435455"
    unfolding blk_def by (rule length_replicate)
  have fs: "field_size m = 268435455" and fm: "field m = replicate 8 (Block blk)"
    by (simp_all add: m_def)
  have ufs: "unat (field_size m) = 268435455"
    by (simp add: fs)
  have v: "valid_message m"
    unfolding valid_message_def ufs fm
    using lb by (simp add: NUM_FIELDS_def list_all_length)
  have lbuf: "length buffer = 2147483648"
    unfolding buffer_def by (rule length_replicate)
  have cap: "unat (2147483648 :: size_t) \<le> length buffer"
    by (simp add: lbuf)
  have fits: "8 + 8 * unat (field_size m) \<le> unat (2147483648 :: size_t)"
    by (simp add: ufs)
  have r: "size_to_int (sizeof_size_t + of_nat NUM_FIELDS * field_size m) = - 2147483648"
    by (simp add: size_to_int_def sizeof_size_t_def NUM_FIELDS_def fs)
  have "return_value (msg_serialize m buffer 2147483648) = Inr (- 2147483648)"
    unfolding msg_serialize_writes [OF v cap fits] r by (simp add: return_value_def)
  then show ?thesis
    by (simp only: m_def blk_def buffer_def)
qed


section \<open>Claims about buffers and statistics\<close>

text \<open>
  C8 (page-aligned allocation), as the code has it. The worker asks \<open>posix_memalign\<close> for
  \<open>((min_size + 4095) / 4096) * 4096\<close> bytes at an alignment of 4096, where \<open>min_size\<close>
  is \<open>sizeof(size_t) + msg_size\<close>. When \<open>min_size + 4095\<close> does not wrap around in
  \<open>size_t\<close> and the C library keeps the promise of POSIX, a successful allocation has a
  base address that is a multiple of 4096 and a length that is the least multiple of 4096
  not below \<open>min_size\<close>.
\<close>

theorem allocate_aligned_page_multiple:
  assumes c: "memalign_contract pm"
    and b: "unat (buffer_size_of msg_size) + 4095 < 2 ^ 64"
    and a: "allocate_aligned pm msg_size = Some buf"
  shows "unat (base buf) mod 4096 = 0 \<and>
         length (mem buf) = unat (aligned_size_of (buffer_size_of msg_size)) \<and>
         length (mem buf) mod 4096 = 0 \<and>
         unat (buffer_size_of msg_size) \<le> length (mem buf) \<and>
         (\<forall>n. n mod 4096 = 0 \<and> unat (buffer_size_of msg_size) \<le> n \<longrightarrow> length (mem buf) \<le> n)"
proof -
  let ?sz = "aligned_size_of (buffer_size_of msg_size)"
  obtain addr content where pm: "pm PAGE_SIZE ?sz = Some (addr, content)"
    and buf: "buf = \<lparr>base = addr, mem = map content [0..<unat ?sz]\<rparr>"
    using a by (auto simp: allocate_aligned_def Let_def split: option.splits)
  have "unat addr mod unat PAGE_SIZE = 0"
    using c pm unfolding memalign_contract_def by blast
  then have al: "unat (base buf) mod 4096 = 0"
    by (simp add: buf PAGE_SIZE_def)
  have len: "length (mem buf) = ((unat (buffer_size_of msg_size) + 4095) div 4096) * 4096"
    using unat_aligned_size_of [OF b] by (simp add: buf)
  have len': "length (mem buf) = unat ?sz"
    by (simp add: buf)
  show ?thesis
    using al len' round_up_page [where b = "unat (buffer_size_of msg_size)"]
    unfolding len [symmetric] by simp
qed

theorem allocate_aligned_witness:
  "memalign_contract zeroed_memalign \<and>
   unat (buffer_size_of 1024) + 4095 < 2 ^ 64 \<and>
   allocate_aligned zeroed_memalign 1024 =
     Some \<lparr>base = 0, mem = map (\<lambda>i. 0) [0..<4096]\<rparr> \<and>
   length (mem \<lparr>base = 0 :: size_t, mem = map (\<lambda>i. 0 :: byte) [0..<4096]\<rparr>) =
     unat (aligned_size_of (buffer_size_of 1024))"
proof -
  have c: "memalign_contract zeroed_memalign"
    by (simp add: memalign_contract_def zeroed_memalign_def)
  have b: "unat (buffer_size_of 1024) + 4095 < 2 ^ 64"
    by (simp add: buffer_size_of_def sizeof_size_t_def)
  have a: "allocate_aligned zeroed_memalign 1024 =
     Some \<lparr>base = 0, mem = map (\<lambda>i. 0) [0..<4096]\<rparr>"
    by (simp add: allocate_aligned_def buffer_size_of_def aligned_size_of_def sizeof_size_t_def
        PAGE_SIZE_def Let_def zeroed_memalign_def)
  show ?thesis
    using c b a allocate_aligned_page_multiple [OF c b a] by simp
qed

text \<open>
  C8, where the claim as stated fails. The message size \<open>2 ^ 64 - 9\<close> (what the option
  \<open>--msgsize=-9\<close> becomes as a \<open>size_t\<close>) gives \<open>min_size = 2 ^ 64 - 1\<close>; adding 4095
  wraps around and the size asked of \<open>posix_memalign\<close> is \<open>0\<close>: an allocation that
  succeeds returns a region of length \<open>0\<close>, which is below \<open>min_size\<close>.
\<close>

theorem aligned_size_wraps:
  "buffer_size_of 0xFFFFFFFFFFFFFFF7 = 0xFFFFFFFFFFFFFFFF \<and>
   aligned_size_of (buffer_size_of 0xFFFFFFFFFFFFFFF7) = 0 \<and>
   allocate_aligned zeroed_memalign 0xFFFFFFFFFFFFFFF7 = Some \<lparr>base = 0, mem = []\<rparr>"
  by (simp add: allocate_aligned_def buffer_size_of_def aligned_size_of_def sizeof_size_t_def
      PAGE_SIZE_def zeroed_memalign_def)



section \<open>Claims about the completion handler and the drain loop\<close>



text \<open>
  C2 (draining at shutdown), as the code has it. The drain loop has no bound: it returns
  exactly when some number of polls brings the completion count up to the send count, and
  then the count it returns is not below the send count. While the count is short it polls
  again, sleeping one millisecond after each poll that found the queue empty; nothing is
  reported.
\<close>

theorem drain_loop_unbounded:
  "(drain_loop q sc k c s = None \<longleftrightarrow>
      (\<forall>n. count_after q k c n <s sc)) \<and>
   (case drain_loop q sc k c s of
      None \<Rightarrow> True
    | Some (k', c', s') \<Rightarrow> \<not> c' <s sc)"
proof -
  have "drain_loop q sc k c s = None \<longleftrightarrow>
        (\<forall>n. count_after q k c n <s sc)"
    using drain_loop_returns_if_reached [of q k c _ sc s]
      drain_loop_reached_if_returns [of q sc k c s]
    by (cases "drain_loop q sc k c s") auto
  moreover have "case drain_loop q sc k c s of
      None \<Rightarrow> True
    | Some (k', c', s') \<Rightarrow> \<not> c' <s sc"
    using drain_loop_result [of q sc k c s]
    by (cases "drain_loop q sc k c s") auto
  ultimately show ?thesis
    by (rule conjI)
qed

theorem drain_loop_unbounded_witness:
  "drain_loop notifies_each 2 0 0 0 = Some (2, 2, 0)"
proof -
  have "drain_loop notifies_each 2 0 0 0 = Some (2, 2, 0)"
    by (simp add: drain_loop.simps [of notifies_each 2] handle_zerocopy_completions_def
        notifies_each_def is_zerocopy_notification_def word_sless_alt)
  then show ?thesis
    using drain_loop_unbounded [of notifies_each 2 0 0 0] by simp
qed

text \<open>
  C2, where the claim as stated fails. One send is outstanding and no notification ever
  arrives: the drain loop does not return.
\<close>

theorem drain_loop_never_returns:
  "drain_loop never_notifies 1 0 0 0 = None"
proof (rule ccontr)
  assume "drain_loop never_notifies 1 0 0 0 \<noteq> None"
  then obtain y where "drain_loop never_notifies 1 0 0 0 = Some y"
    by auto
  then obtain n where "\<not> count_after never_notifies 0 0 n <s (1 :: c_int)"
    using drain_loop_reached_if_returns by blast
  then show False
    by (simp add: count_after_never_notifies word_sless_alt)
qed


section \<open>Claims about the sending worker\<close>



text \<open>
  C4 (probing for zero-copy). \<open>check_zerocopy_support\<close> answers \<open>0\<close> when enabling
  \<open>SO_ZEROCOPY\<close> fails with \<open>ENOPROTOOPT\<close> and \<open>1\<close> when it succeeds. When it fails
  with any other error the thread reports it, closes the socket and returns: no
  \<open>sendmsg\<close> is issued. After \<open>ENOPROTOOPT\<close> a worker that gets through its setup has
  \<open>zerocopy_enabled = 0\<close>: every \<open>sendmsg\<close> of the loop is issued without
  \<open>MSG_ZEROCOPY\<close>, the draining after the loop is skipped, and the thread goes from the
  end of the send loop straight to its teardown.
\<close>

theorem zerocopy_probe:
  "check_zerocopy_support (Some ENOPROTOOPT) =
     (0, [''MSG_ZEROCOPY not supported (requires Linux 4.14+)'',
          ''Falling back to regular sendmsg()'']) \<and>
   check_zerocopy_support None = (1, []) \<and>
   (socket_ok e \<and> setsockopt_zerocopy e = Some err \<and> err \<noteq> ENOPROTOOPT \<longrightarrow>
      sender_thread e msg_size duration =
        Some (Aborted [EvStderr ''setsockopt SO_ZEROCOPY failed'', EvClose])) \<and>
   (setsockopt_zerocopy e = Some ENOPROTOOPT \<and> sender_setup e msg_size = Proceed w evs \<longrightarrow>
      zerocopy_enabled w = 0 \<and>
      (\<forall>st. \<exists>rest. trace (snd (send_iteration e w st)) =
                 trace st @ EvSendmsg False (of_int (serialized_size w)) # rest) \<and>
      (\<forall>st. drain_completions e w st = Some st) \<and>
      sender_thread e msg_size duration =
        (case send_loop e w (clock_sec e 1 + real_of_int duration) (initial_state e evs) of
           None \<Rightarrow> None
         | Some st \<Rightarrow> Some (Proceed (teardown e st) (trace st))))"
proof (intro conjI impI allI)
  show "check_zerocopy_support (Some ENOPROTOOPT) =
     (0, [''MSG_ZEROCOPY not supported (requires Linux 4.14+)'',
          ''Falling back to regular sendmsg()''])"
    by (simp add: check_zerocopy_support_def)
  show "check_zerocopy_support None = (1, [])"
    by (simp add: check_zerocopy_support_def)
next
  assume "socket_ok e \<and> setsockopt_zerocopy e = Some err \<and> err \<noteq> ENOPROTOOPT"
  then show "sender_thread e msg_size duration =
        Some (Aborted [EvStderr ''setsockopt SO_ZEROCOPY failed'', EvClose])"
    by (simp add: sender_thread_def sender_setup_def check_zerocopy_support_def)
next
  assume a: "setsockopt_zerocopy e = Some ENOPROTOOPT \<and> sender_setup e msg_size = Proceed w evs"
  then have p: "sender_setup e msg_size = Proceed w evs"
    by simp
  show z: "zerocopy_enabled w = 0"
    using a
    by (auto simp add: sender_setup_def check_zerocopy_support_def
        split: if_splits option.splits sum.splits prod.splits)
  show "\<exists>rest. trace (snd (send_iteration e w st)) =
                 trace st @ EvSendmsg False (of_int (serialized_size w)) # rest" for st
    using z
    by (auto simp add: send_iteration_def poll_completions_def Let_def
        split: send_result.splits prod.splits)
  show d: "drain_completions e w st = Some st" for st
    using z by (simp add: drain_completions_def)
  show "sender_thread e msg_size duration =
        (case send_loop e w (clock_sec e 1 + real_of_int duration) (initial_state e evs) of
           None \<Rightarrow> None
         | Some st \<Rightarrow> Some (Proceed (teardown e st) (trace st)))"
    using p d by (simp add: sender_thread_def Let_def split: option.splits)
qed


theorem zerocopy_probe_witness:
  "socket_ok refusing_env \<and> setsockopt_zerocopy refusing_env = Some (EOTHER 1) \<and>
   EOTHER 1 \<noteq> ENOPROTOOPT \<and>
   sender_thread refusing_env 5 1 =
     Some (Aborted [EvStderr ''setsockopt SO_ZEROCOPY failed'', EvClose]) \<and>
   setsockopt_zerocopy fallback_env = Some ENOPROTOOPT \<and>
   sender_setup fallback_env 5 =
     Proceed (small_worker 0)
       [EvStderr ''MSG_ZEROCOPY not supported (requires Linux 4.14+)'',
        EvStderr ''Falling back to regular sendmsg()''] \<and>
   zerocopy_enabled (small_worker 0) = 0 \<and>
   drain_completions fallback_env (small_worker 0) (initial_state fallback_env []) =
     Some (initial_state fallback_env [])"
proof -
  have a: "socket_ok refusing_env \<and> setsockopt_zerocopy refusing_env = Some (EOTHER 1) \<and>
           EOTHER 1 \<noteq> ENOPROTOOPT"
    by (simp add: refusing_env_def loopback_env_def)
  have b: "setsockopt_zerocopy fallback_env = Some ENOPROTOOPT \<and>
           sender_setup fallback_env 5 =
             Proceed (small_worker 0)
               [EvStderr ''MSG_ZEROCOPY not supported (requires Linux 4.14+)'',
                EvStderr ''Falling back to regular sendmsg()'']"
    by (simp add: sender_setup_small) (simp add: fallback_env_def)
  show ?thesis
    using a b
      zerocopy_probe [of refusing_env "EOTHER 1" 5 1 "small_worker 0" "[]"]
      zerocopy_probe [of fallback_env "EOTHER 1" 5 1 "small_worker 0"
        "[EvStderr ''MSG_ZEROCOPY not supported (requires Linux 4.14+)'',
          EvStderr ''Falling back to regular sendmsg()'']"]
    by simp
qed

text \<open>
  C10 (size of the frame on the wire). The option \<open>--msgsize\<close> is read as an \<open>int\<close> and
  converted to \<open>size_t\<close>. Whenever the worker gets through its setup for such a message
  size, the size is below \<open>2 ^ 31\<close>, each of the eight fields of the message is a block of
  exactly \<open>msg_size div 8\<close> bytes, and the length handed to every \<open>sendmsg\<close> is
  \<open>8 + 8 * (msg_size div 8)\<close>. When the size is not a multiple of 8 this is less than
  \<open>8 + msg_size\<close>; when the size is below 8 the fields are empty and the frame is the
  prefix alone.
\<close>

theorem frame_size_is_floor:
  assumes p: "sender_setup e (msg_size_of_option x) = Proceed w evs"
  shows "unat (msg_size_of_option x) < 2 ^ 31 \<and>
         field_size (message w) = msg_size_of_option x div 8 \<and>
         length (field (message w)) = NUM_FIELDS \<and>
         list_all (is_block_of (unat (msg_size_of_option x) div 8)) (field (message w)) \<and>
         serialized_size w = int (8 + 8 * (unat (msg_size_of_option x) div 8)) \<and>
         (\<forall>st. \<exists>rest. trace (snd (send_iteration e w st)) =
            trace st @ EvSendmsg (zerocopy_enabled w \<noteq> 0)
                         (of_nat (8 + 8 * (unat (msg_size_of_option x) div 8))) # rest) \<and>
         (unat (msg_size_of_option x) mod 8 \<noteq> 0 \<longrightarrow>
            serialized_size w < int (8 + unat (msg_size_of_option x))) \<and>
         (unat (msg_size_of_option x) < 8 \<longrightarrow>
            serialized_size w = 8 \<and> field (message w) = replicate NUM_FIELDS (Block []))"
proof -
  let ?ms = "msg_size_of_option x"
  let ?fs = "?ms div 8"
  let ?t = "sizeof_size_t + of_nat NUM_FIELDS * ?fs"
  obtain buf where al: "allocate_aligned (posix_memalign e) ?ms = Some buf"
    and ma: "msg_alloc (malloc e) (?ms div of_nat NUM_FIELDS) = Some (message w)"
    and ser: "msg_serialize (message w) (mem buf) (aligned_size_of (buffer_size_of ?ms)) =
                Inr (frame w, serialized_size w)"
    and nonneg: "0 \<le> serialized_size w"
    using sender_setup_Proceed [OF p] by blast
  have n8: "(of_nat NUM_FIELDS :: size_t) = 8"
    by (simp add: NUM_FIELDS_def)
  have shape: "field_size (message w) = ?fs" "length (field (message w)) = NUM_FIELDS"
    "list_all (is_block_of (unat ?fs)) (field (message w))"
    using msg_alloc_shape [OF ma] by (simp_all add: n8)
  have ufs: "unat ?fs = unat ?ms div 8"
    by (simp add: unat_div)
  have lm: "length (mem buf) < 2 ^ 64"
    using length_mem_allocate_aligned [OF al]
      unsigned_less [of "aligned_size_of (buffer_size_of ?ms)", where ?'a = nat] by simp
  have ne: "serialized_size w \<noteq> - 1"
    using nonneg by simp
  have suc: "8 + 8 * unat (field_size (message w)) \<le> length (mem buf)"
    "serialized_size w = size_to_int (sizeof_size_t + of_nat NUM_FIELDS * field_size (message w))"
    using msg_serialize_success [OF ser ne shape(2) _ lm] shape(1,3) by simp_all
  have nov: "8 + 8 * unat ?fs < 2 ^ 64"
    using suc(1) lm shape(1) by simp
  have ut: "unat ?t = 8 + 8 * (unat ?ms div 8)"
    using unat_total_size [OF nov] ufs by simp
  have r: "serialized_size w = size_to_int ?t"
    using suc(2) shape(1) by simp
  have notneg: "\<not> size_to_int ?t < 0"
    using nonneg r by simp
  have le: "8 * (unat ?ms div 8) \<le> unat ?ms" and gt: "unat ?ms < 8 * (unat ?ms div 8) + 8"
    by presburger+
  have small: "unat ?ms < 2 ^ 31 \<and> unat ?t < 2 ^ 31"
  proof -
    consider (pos) "unat ?ms < 2 ^ 31" | (neg) "2 ^ 64 - 2 ^ 31 \<le> unat ?ms"
      using unat_scast_cases [of x] by (auto simp add: msg_size_of_option_def)
    then show ?thesis
    proof cases
      case pos
      have "\<not> (2 ^ 31 \<le> unat ?t \<and> unat ?t < 2 ^ 32)"
        using size_to_int_negative_nat [of ?t] notneg by blast
      moreover have "(2::nat) ^ 31 + 8 \<le> 2 ^ 32"
        by simp
      then have "unat ?t < 2 ^ 32"
        using pos le unfolding ut by linarith
      ultimately have "unat ?t < 2 ^ 31"
        by (simp only: not_le de_Morgan_conj) blast
      then show ?thesis
        using pos by (rule conjI [rotated])
    next
      case neg
      have "2 ^ 64 - 2 ^ 31 \<le> unat ?t"
        using neg gt unfolding ut by linarith
      then have "size_to_int ?t < 0"
        using size_to_int_negative_nat [of ?t] by blast
      then show ?thesis
        using notneg by (rule notE [rotated])
    qed
  qed
  have val: "serialized_size w = int (8 + 8 * (unat ?ms div 8))"
    using size_to_int_small [of ?t] small r ut by simp
  have c1: "unat ?ms < 2 ^ 31"
    using small by (rule conjunct1)
  have c4: "list_all (is_block_of (unat ?ms div 8)) (field (message w))"
    using shape(3) by (simp only: ufs)
  have strict: "8 + 8 * (unat ?ms div 8) < 8 + unat ?ms" if "unat ?ms mod 8 \<noteq> 0"
    using that by presburger
  have c6: "unat ?ms mod 8 \<noteq> 0 \<longrightarrow> serialized_size w < int (8 + unat ?ms)"
    unfolding val of_nat_less_iff using strict by (rule impI)
  have c7: "unat ?ms < 8 \<longrightarrow>
      serialized_size w = 8 \<and> field (message w) = replicate NUM_FIELDS (Block [])"
  proof
    assume lt8: "unat ?ms < 8"
    then have d0: "unat ?ms div 8 = 0"
      by simp
    have "serialized_size w = 8"
      unfolding val d0 by simp
    moreover have "field (message w) = replicate NUM_FIELDS (Block [])"
      using blocks_empty [of "field (message w)"] c4 shape(2) unfolding d0 by simp
    ultimately show "serialized_size w = 8 \<and> field (message w) = replicate NUM_FIELDS (Block [])"
      by (rule conjI)
  qed
  have c5: "\<forall>st. \<exists>rest. trace (snd (send_iteration e w st)) =
            trace st @ EvSendmsg (zerocopy_enabled w \<noteq> 0)
                         (of_nat (8 + 8 * (unat ?ms div 8))) # rest"
    using send_iteration_event [of e w] unfolding val of_int_of_nat_eq by (rule allI)
  show ?thesis
    using c1 shape(1) shape(2) c4 val c5 c6 c7 by (intro conjI)
qed


theorem frame_size_is_floor_witness:
  "sender_setup loopback_env (msg_size_of_option 5) = Proceed (small_worker 1) [] \<and>
   unat (msg_size_of_option 5) mod 8 \<noteq> 0 \<and>
   unat (msg_size_of_option 5) < 8 \<and>
   serialized_size (small_worker 1) = 8 \<and>
   serialized_size (small_worker 1) < int (8 + unat (msg_size_of_option 5)) \<and>
   field (message (small_worker 1)) = replicate NUM_FIELDS (Block []) \<and>
   trace (snd (send_iteration loopback_env (small_worker 1) first_pass)) =
     trace first_pass @ [EvSendmsg True 8]"
proof -
  have m: "msg_size_of_option 5 = 5"
    by (simp add: msg_size_of_option_def)
  have p: "sender_setup loopback_env (msg_size_of_option 5) = Proceed (small_worker 1) []"
    unfolding m by (rule sender_setup_small(1))
  have t: "trace (snd (send_iteration loopback_env (small_worker 1) first_pass)) =
     trace first_pass @ [EvSendmsg True 8]"
    unfolding pass1 by (simp add: after_retry_def first_pass_def initial_state_def)
  show ?thesis
    using p t frame_size_is_floor [OF p] by (simp add: m)
qed

end
